theory Spec2Isabelle
  imports Main
begin

section \<open>Notebook steps of a structured query\<close>

text \<open>
  The development embeds \<^verbatim>\<open>notebook/lib/steps.ts\<close>: the step catalog \<^verbatim>\<open>STEPS\<close>,
  \<^verbatim>\<open>getMLv2StageIndex\<close>, \<^verbatim>\<open>getStageSteps\<close> with its inner \<^verbatim>\<open>getId\<close>, \<^verbatim>\<open>getTestId\<close> and
  \<^verbatim>\<open>getStep\<close>, \<^verbatim>\<open>getQuestionSteps\<close>, and the \<^verbatim>\<open>update\<close> closure of a step.

  The file works on objects of other modules (\<^verbatim>\<open>StructuredQuery\<close>, \<^verbatim>\<open>Join\<close>, \<^verbatim>\<open>Database\<close>,
  the \<^verbatim>\<open>Lib\<close> functions on the query of the newer library). Their code is not part of
  the file, so every method the file calls on them is a field of the record
  \<open>query_ops\<close>, and the definitions that call them take that record as an argument.
  The methods are total functions here: a run in which one of them throws is not
  described.
\<close>

subsection \<open>The collaborators, as parameters\<close>

record ('q, 'j, 'db, 't, 'd, 'm) query_ops =
  sourceQuery :: "'q \<Rightarrow> 'q option"
  database :: "'q \<Rightarrow> 'db option"
  hasFeature :: "'db \<Rightarrow> string \<Rightarrow> bool"
  supportsExpressions :: "'db \<Rightarrow> bool"
  hasData :: "'q \<Rightarrow> bool"
  joins :: "'q \<Rightarrow> 'j list"
  removeJoin :: "'q \<Rightarrow> nat option \<Rightarrow> 'q"
  updateJoin :: "'q \<Rightarrow> nat option \<Rightarrow> 'j \<Rightarrow> 'q"
  join_isValid :: "'j \<Rightarrow> bool"
  join_hasGaps :: "'j \<Rightarrow> bool"
  join_clean :: "'j \<Rightarrow> 'j"
  hasExpressions :: "'q \<Rightarrow> bool"
  clearExpressions :: "'q \<Rightarrow> 'q"
  cleanExpressions :: "'q \<Rightarrow> 'q"
  hasFilters :: "'q \<Rightarrow> bool"
  clearFilters :: "'q \<Rightarrow> 'q"
  cleanFilters :: "'q \<Rightarrow> 'q"
  hasAggregations :: "'q \<Rightarrow> bool"
  hasBreakouts :: "'q \<Rightarrow> bool"
  clearBreakouts :: "'q \<Rightarrow> 'q"
  clearAggregations :: "'q \<Rightarrow> 'q"
  cleanBreakouts :: "'q \<Rightarrow> 'q"
  cleanAggregations :: "'q \<Rightarrow> 'q"
  hasSorts :: "'q \<Rightarrow> bool"
  clearSort :: "'q \<Rightarrow> 'q"
  cleanSorts :: "'q \<Rightarrow> 'q"
  hasAnyClauses :: "'q \<Rightarrow> bool"
  Lib_hasLimit :: "'t \<Rightarrow> int \<Rightarrow> bool"
  Lib_limit :: "'t \<Rightarrow> int \<Rightarrow> nat option \<Rightarrow> 't"
  Lib_toLegacyQuery :: "'t \<Rightarrow> 'd"
  setDatasetQuery :: "'q \<Rightarrow> 'd \<Rightarrow> 'q"
  queries :: "'q \<Rightarrow> 'q list"
  setSourceQuery :: "'q \<Rightarrow> 'm \<Rightarrow> 'q"
  query_of :: "'q \<Rightarrow> 'm"
  cleanNesting :: "'q \<Rightarrow> 'q"
  nest :: "'q \<Rightarrow> 'q"
  getMLv2Query :: "'q \<Rightarrow> 't"

text \<open>
  \<open>query_of\<close> is the method \<^verbatim>\<open>query()\<close> of a structured query and \<open>getMLv2Query\<close> is the
  chain \<^verbatim>\<open>query.rootQuery().question()._getMLv2Query()\<close>. \<open>join_isValid\<close>, \<open>join_hasGaps\<close>
  and \<open>join_clean\<close> are the methods \<^verbatim>\<open>isValid\<close>, \<^verbatim>\<open>hasGaps\<close> and \<^verbatim>\<open>clean\<close> of a join.
  An item index is \<^verbatim>\<open>number | null\<close> in the source: \<open>nat option\<close>.
\<close>

record ('q, 'db) question =
  isStructured :: bool
  question_query :: 'q
  question_database :: "'db option"

subsection \<open>JavaScript helpers\<close>

definition digit_char :: "nat \<Rightarrow> char" where
  "digit_char d = ''0123456789'' ! d"

fun string_of_nat :: "nat \<Rightarrow> string" where
  "string_of_nat n =
     (if n < 10 then [digit_char n] else string_of_nat (n div 10) @ [digit_char (n mod 10)])"

declare string_of_nat.simps [simp del]

text \<open>Reading an array at a number: \<^verbatim>\<open>undefined\<close> outside the array.\<close>

definition js_index :: "'a list \<Rightarrow> int \<Rightarrow> 'a option" where
  "js_index xs i = (if 0 \<le> i \<and> i < int (length xs) then Some (xs ! nat i) else None)"

text \<open>The truth value of \<^verbatim>\<open>openSteps[id]\<close>: a missing key is \<^verbatim>\<open>undefined\<close>.\<close>

definition truthy :: "bool option \<Rightarrow> bool" where
  "truthy v = (v = Some True)"

subsection \<open>The step catalog\<close>

record ('q, 't) step_def =
  def_type :: string
  def_valid :: "'q \<Rightarrow> nat option \<Rightarrow> 't \<Rightarrow> int \<Rightarrow> bool"
  def_active :: "'q \<Rightarrow> nat option \<Rightarrow> 't \<Rightarrow> int \<Rightarrow> bool"
  def_clean :: "'q \<Rightarrow> nat option \<Rightarrow> 't \<Rightarrow> int \<Rightarrow> 'q"
  def_revert :: "('q \<Rightarrow> nat option \<Rightarrow> 't \<Rightarrow> int \<Rightarrow> 'q option) option"
  def_subSteps :: "('q \<Rightarrow> nat) option"

definition MLV2_STEPS :: "string list" where
  "MLV2_STEPS = [''limit'', ''sort'']"

definition getMLv2StageIndex :: "nat \<Rightarrow> string \<Rightarrow> bool \<Rightarrow> int" where
  "getMLv2StageIndex index stepType isLastStage =
     (let isMLv2Step = stepType \<in> set MLV2_STEPS
      in if isMLv2Step \<and> isLastStage then - 1 else int index)"

definition data_valid ::
  "('q, 'j, 'db, 't, 'd, 'm) query_ops \<Rightarrow> 'q \<Rightarrow> nat option \<Rightarrow> 't \<Rightarrow> int \<Rightarrow> bool" where
  "data_valid ops query index tq si = (sourceQuery ops query = None)"

definition data_def :: "('q, 'j, 'db, 't, 'd, 'm) query_ops \<Rightarrow> ('q, 't) step_def" where
  "data_def ops =
     \<lparr> def_type = ''data'',
       def_valid = data_valid ops,
       def_active = (\<lambda>query index tq si. True),
       def_clean = (\<lambda>query index tq si. query),
       def_revert = None,
       def_subSteps = None \<rparr>"

definition join_valid ::
  "('q, 'j, 'db, 't, 'd, 'm) query_ops \<Rightarrow> 'q \<Rightarrow> nat option \<Rightarrow> 't \<Rightarrow> int \<Rightarrow> bool" where
  "join_valid ops query index tq si =
     (hasData ops query \<and>
      (case database ops query of None \<Rightarrow> False | Some db \<Rightarrow> hasFeature ops db ''join''))"

definition join_active ::
  "('q, 'j, 'db, 't, 'd, 'm) query_ops \<Rightarrow> 'q \<Rightarrow> nat option \<Rightarrow> 't \<Rightarrow> int \<Rightarrow> bool" where
  "join_active ops query index tq si =
     (case index of None \<Rightarrow> False | Some i \<Rightarrow> i < length (joins ops query))"

definition join_revert ::
  "('q, 'j, 'db, 't, 'd, 'm) query_ops \<Rightarrow> 'q \<Rightarrow> nat option \<Rightarrow> 't \<Rightarrow> int \<Rightarrow> 'q option" where
  "join_revert ops query index tq si = Some (removeJoin ops query index)"

text \<open>
  \<^verbatim>\<open>query.joins()[index]\<close> is \<^verbatim>\<open>undefined\<close> past the end of the array, and then
  \<^verbatim>\<open>!join\<close> holds, as it does for a \<^verbatim>\<open>null\<close> index.
\<close>

definition join_clean_step ::
  "('q, 'j, 'db, 't, 'd, 'm) query_ops \<Rightarrow> 'q \<Rightarrow> nat option \<Rightarrow> 't \<Rightarrow> int \<Rightarrow> 'q" where
  "join_clean_step ops query index tq si =
     (let join = (case index of
                    None \<Rightarrow> None
                  | Some i \<Rightarrow> js_index (joins ops query) (int i))
      in case join of
           None \<Rightarrow> query
         | Some j \<Rightarrow>
             if join_isValid ops j \<or> join_hasGaps ops j then query
             else (let cleanJoin = join_clean ops j
                   in if join_isValid ops cleanJoin then updateJoin ops query index cleanJoin
                      else removeJoin ops query index))"

definition join_def :: "('q, 'j, 'db, 't, 'd, 'm) query_ops \<Rightarrow> ('q, 't) step_def" where
  "join_def ops =
     \<lparr> def_type = ''join'',
       def_valid = join_valid ops,
       def_active = join_active ops,
       def_clean = join_clean_step ops,
       def_revert = Some (join_revert ops),
       def_subSteps = Some (\<lambda>query. length (joins ops query)) \<rparr>"

definition expression_valid ::
  "('q, 'j, 'db, 't, 'd, 'm) query_ops \<Rightarrow> 'q \<Rightarrow> nat option \<Rightarrow> 't \<Rightarrow> int \<Rightarrow> bool" where
  "expression_valid ops query index tq si =
     (hasData ops query \<and>
      (case database ops query of None \<Rightarrow> False | Some db \<Rightarrow> supportsExpressions ops db))"

definition expression_def :: "('q, 'j, 'db, 't, 'd, 'm) query_ops \<Rightarrow> ('q, 't) step_def" where
  "expression_def ops =
     \<lparr> def_type = ''expression'',
       def_valid = expression_valid ops,
       def_active = (\<lambda>query index tq si. hasExpressions ops query),
       def_clean = (\<lambda>query index tq si. cleanExpressions ops query),
       def_revert = Some (\<lambda>query index tq si. Some (clearExpressions ops query)),
       def_subSteps = None \<rparr>"

definition filter_def :: "('q, 'j, 'db, 't, 'd, 'm) query_ops \<Rightarrow> ('q, 't) step_def" where
  "filter_def ops =
     \<lparr> def_type = ''filter'',
       def_valid = (\<lambda>query index tq si. hasData ops query),
       def_active = (\<lambda>query index tq si. hasFilters ops query),
       def_clean = (\<lambda>query index tq si. cleanFilters ops query),
       def_revert = Some (\<lambda>query index tq si. Some (clearFilters ops query)),
       def_subSteps = None \<rparr>"

definition summarize_revert ::
  "('q, 'j, 'db, 't, 'd, 'm) query_ops \<Rightarrow> 'q \<Rightarrow> nat option \<Rightarrow> 't \<Rightarrow> int \<Rightarrow> 'q option" where
  "summarize_revert ops query index tq si =
     Some (if hasAggregations ops query \<or> hasBreakouts ops query
           then clearAggregations ops (clearBreakouts ops query)
           else query)"

definition summarize_def :: "('q, 'j, 'db, 't, 'd, 'm) query_ops \<Rightarrow> ('q, 't) step_def" where
  "summarize_def ops =
     \<lparr> def_type = ''summarize'',
       def_valid = (\<lambda>query index tq si. hasData ops query),
       def_active = (\<lambda>query index tq si. hasAggregations ops query \<or> hasBreakouts ops query),
       def_clean = (\<lambda>query index tq si. cleanAggregations ops (cleanBreakouts ops query)),
       def_revert = Some (summarize_revert ops),
       def_subSteps = None \<rparr>"

definition sort_valid ::
  "('q, 'j, 'db, 't, 'd, 'm) query_ops \<Rightarrow> 'q \<Rightarrow> nat option \<Rightarrow> 't \<Rightarrow> int \<Rightarrow> bool" where
  "sort_valid ops query index tq si =
     (hasData ops query \<and>
      (\<not> hasAggregations ops query \<or> hasBreakouts ops query) \<and>
      (sourceQuery ops query = None \<or> hasAnyClauses ops query))"

definition sort_def :: "('q, 'j, 'db, 't, 'd, 'm) query_ops \<Rightarrow> ('q, 't) step_def" where
  "sort_def ops =
     \<lparr> def_type = ''sort'',
       def_valid = sort_valid ops,
       def_active = (\<lambda>query index tq si. hasSorts ops query),
       def_clean = (\<lambda>query index tq si. cleanSorts ops query),
       def_revert = Some (\<lambda>query index tq si. Some (clearSort ops query)),
       def_subSteps = None \<rparr>"

definition limit_valid ::
  "('q, 'j, 'db, 't, 'd, 'm) query_ops \<Rightarrow> 'q \<Rightarrow> nat option \<Rightarrow> 't \<Rightarrow> int \<Rightarrow> bool" where
  "limit_valid ops query index tq si =
     (hasData ops query \<and>
      (\<not> hasAggregations ops query \<or> hasBreakouts ops query) \<and>
      (sourceQuery ops query = None \<or> hasAnyClauses ops query))"

text \<open>
  The revert of the limit step reads the stage out of \<^verbatim>\<open>stagedQueries\<close> at a number, so
  its result is \<^verbatim>\<open>undefined\<close> (\<open>None\<close>) when that number is outside the array.
\<close>

definition limit_revert ::
  "('q, 'j, 'db, 't, 'd, 'm) query_ops \<Rightarrow> 'q \<Rightarrow> nat option \<Rightarrow> 't \<Rightarrow> int \<Rightarrow> 'q option" where
  "limit_revert ops legacyQuery itemIndex query stageIndex =
     (let reverted = Lib_limit ops query stageIndex None;
          revertedLegacyQuery = Lib_toLegacyQuery ops reverted;
          revertedStructuredQuery = setDatasetQuery ops legacyQuery revertedLegacyQuery;
          stagedQueries = queries ops revertedStructuredQuery;
          safeStageIndex =
            (if stageIndex = - 1 then int (length stagedQueries) - 1 else stageIndex)
      in js_index stagedQueries safeStageIndex)"

definition limit_def :: "('q, 'j, 'db, 't, 'd, 'm) query_ops \<Rightarrow> ('q, 't) step_def" where
  "limit_def ops =
     \<lparr> def_type = ''limit'',
       def_valid = limit_valid ops,
       def_active = (\<lambda>legacyQuery itemIndex query stageIndex. Lib_hasLimit ops query stageIndex),
       def_clean = (\<lambda>query index tq si. query),
       def_revert = Some (limit_revert ops),
       def_subSteps = None \<rparr>"

definition STEPS :: "('q, 'j, 'db, 't, 'd, 'm) query_ops \<Rightarrow> ('q, 't) step_def list" where
  "STEPS ops =
     [data_def ops, join_def ops, expression_def ops, filter_def ops, summarize_def ops,
      sort_def ops, limit_def ops]"

subsection \<open>Step instances\<close>

text \<open>
  An action offers to open a hidden step: the source stores the type and a closure that
  calls \<^verbatim>\<open>openStep(step.id)\<close>; the model stores the id the closure passes.
\<close>

record step_action =
  action_type :: string
  action_opens :: string

text \<open>
  A step instance. The fields \<^verbatim>\<open>next\<close> and \<^verbatim>\<open>previous\<close> are the neighbours in the list
  \<^verbatim>\<open>allSteps\<close>, so they are positions in that list here, and \<^verbatim>\<open>update\<close>, which follows
  \<^verbatim>\<open>next\<close>, is the function \<open>update\<close> below on the list and a position.
\<close>

record ('q, 't) notebook_step =
  step_id :: string
  step_type :: string
  stageIndex :: int
  itemIndex :: "nat option"
  topLevelQuery :: 't
  query :: 'q
  valid :: bool
  active :: bool
  visible :: bool
  testID :: string
  revert :: "('q \<Rightarrow> 'q option) option"
  clean :: "'q \<Rightarrow> 'q"
  actions :: "step_action list"
  previewQuery :: "'q option"

definition isValidItemIndex :: "nat option \<Rightarrow> bool" where
  "isValidItemIndex item = (case item of None \<Rightarrow> False | Some i \<Rightarrow> i > 0)"

definition getId :: "nat \<Rightarrow> ('q, 't) step_def \<Rightarrow> nat option \<Rightarrow> string" where
  "getId stageIndex0 step item =
     string_of_nat stageIndex0 @ '':'' @ def_type step @
     (case item of
        None \<Rightarrow> []
      | Some i \<Rightarrow> if isValidItemIndex item then '':'' @ string_of_nat i else [])"

definition getTestId :: "nat \<Rightarrow> ('q, 't) step_def \<Rightarrow> nat option \<Rightarrow> string" where
  "getTestId stageIndex0 step item =
     (let finalItemIndex =
            (case item of
               None \<Rightarrow> 0
             | Some i \<Rightarrow> if isValidItemIndex item then i else 0)
      in ''step-'' @ def_type step @ ''-'' @ string_of_nat stageIndex0 @ ''-'' @
         string_of_nat finalItemIndex)"

definition getStep ::
  "'t \<Rightarrow> 'q \<Rightarrow> nat \<Rightarrow> bool \<Rightarrow> (string \<rightharpoonup> bool) \<Rightarrow> ('q, 't) step_def \<Rightarrow> nat option \<Rightarrow>
   ('q, 't) notebook_step" where
  "getStep tq stageQuery stageIndex0 isLastStage openSteps STEP item =
     (let sid = getId stageIndex0 STEP item;
          si = getMLv2StageIndex stageIndex0 (def_type STEP) isLastStage
      in \<lparr> step_id = sid,
           step_type = def_type STEP,
           stageIndex = si,
           itemIndex = item,
           topLevelQuery = tq,
           query = stageQuery,
           valid = def_valid STEP stageQuery item tq si,
           active = def_active STEP stageQuery item tq si,
           visible =
             (def_valid STEP stageQuery item tq si \<and>
              (def_active STEP stageQuery item tq si \<or> truthy (openSteps sid))),
           testID = getTestId stageIndex0 STEP item,
           revert =
             (case def_revert STEP of
                None \<Rightarrow> None
              | Some r \<Rightarrow> Some (\<lambda>query. r query item tq si)),
           clean = (\<lambda>query. def_clean STEP query item tq si),
           actions = [],
           previewQuery = None \<rparr>)"

subsection \<open>The steps of one stage\<close>

text \<open>The flattened list \<^verbatim>\<open>steps\<close> before the reverse loop touches it.\<close>

definition rawSteps ::
  "('q, 'j, 'db, 't, 'd, 'm) query_ops \<Rightarrow> 't \<Rightarrow> 'q \<Rightarrow> nat \<Rightarrow> bool \<Rightarrow> (string \<rightharpoonup> bool) \<Rightarrow>
   ('q, 't) notebook_step list" where
  "rawSteps ops tq stageQuery stageIndex0 isLastStage openSteps =
     concat (map (\<lambda>STEP.
        case def_subSteps STEP of
          Some subSteps \<Rightarrow>
            (let itemIndexes = [0 ..< subSteps stageQuery + 1]
             in map (\<lambda>itemIndex.
                  getStep tq stageQuery stageIndex0 isLastStage openSteps STEP (Some itemIndex))
                  itemIndexes)
        | None \<Rightarrow> [getStep tq stageQuery stageIndex0 isLastStage openSteps STEP None])
      (STEPS ops))"

text \<open>
  The state of the reverse loop: the array \<^verbatim>\<open>steps\<close>, the running \<^verbatim>\<open>previewQuery\<close> and the
  accumulator \<^verbatim>\<open>actions\<close>. One turn of the loop at position \<open>i\<close>: a visible step gets its
  preview and the accumulated actions; a hidden one is spliced out, leaving an action
  at the front of the accumulator when it is valid; then the running preview is
  reverted by the step.
\<close>

type_synonym ('q, 't) loop_state =
  "('q, 't) notebook_step list \<times> 'q option \<times> step_action list"

definition loop_turn :: "nat \<Rightarrow> ('q, 't) loop_state \<Rightarrow> ('q, 't) loop_state" where
  "loop_turn i st =
     (case st of (steps, pq, acts) \<Rightarrow>
        (let step = steps ! i;
             steps' =
               (if visible step
                then steps[i := step\<lparr>previewQuery := (if active step then pq else None),
                                      actions := acts\<rparr>]
                else take i steps @ drop (Suc i) steps);
             acts' =
               (if visible step then []
                else if valid step
                     then \<lparr>action_type = step_type step, action_opens = step_id step\<rparr> # acts
                     else acts);
             pq' =
               (case revert step of
                  None \<Rightarrow> pq
                | Some r \<Rightarrow> (case pq of None \<Rightarrow> pq | Some q \<Rightarrow> r q))
         in (steps', pq', acts')))"

text \<open>
  \<^verbatim>\<open>for (let i = steps.length - 1; i >= 0; i--)\<close>: \<open>stage_loop n\<close> runs the turns
  \<open>n - 1\<close> down to \<open>0\<close>. A turn reads \<open>steps ! i\<close> inside the array, since only
  positions after \<open>i\<close> have been spliced out before it.
\<close>

fun stage_loop :: "nat \<Rightarrow> ('q, 't) loop_state \<Rightarrow> ('q, 't) loop_state" where
  "stage_loop 0 st = st"
| "stage_loop (Suc i) st = stage_loop i (loop_turn i st)"

definition getStageSteps ::
  "('q, 'j, 'db, 't, 'd, 'm) query_ops \<Rightarrow> 't \<Rightarrow> 'q \<Rightarrow> nat \<Rightarrow> bool \<Rightarrow> (string \<rightharpoonup> bool) \<Rightarrow>
   ('q, 't) notebook_step list \<times> step_action list" where
  "getStageSteps ops tq stageQuery stageIndex0 isLastStage openSteps =
     (let steps = rawSteps ops tq stageQuery stageIndex0 isLastStage openSteps
      in case stage_loop (length steps) (steps, Some stageQuery, []) of
           (steps', pq, acts) \<Rightarrow> (steps', acts))"

subsection \<open>All stages\<close>

text \<open>
  One turn of the loop over the stages: the actions left over at the front of a stage
  go to the last step collected so far.
\<close>

definition add_stage ::
  "('q, 'j, 'db, 't, 'd, 'm) query_ops \<Rightarrow> 't \<Rightarrow> nat \<Rightarrow> (string \<rightharpoonup> bool) \<Rightarrow>
   ('q, 't) notebook_step list \<Rightarrow> nat \<times> 'q \<Rightarrow> ('q, 't) notebook_step list" where
  "add_stage ops tq stageCount openSteps allSteps entry =
     (case entry of (stageIndex0, stageQuery) \<Rightarrow>
        (let isLastStage = (int stageIndex0 = int stageCount - 1)
         in case getStageSteps ops tq stageQuery stageIndex0 isLastStage openSteps of
              (steps, acts) \<Rightarrow>
                (if length allSteps > 0
                 then allSteps[length allSteps - 1 :=
                        (allSteps ! (length allSteps - 1))
                          \<lparr>actions := actions (allSteps ! (length allSteps - 1)) @ acts\<rparr>]
                 else allSteps) @ steps))"

definition getQuestionSteps ::
  "('q, 'j, 'db, 't, 'd, 'm) query_ops \<Rightarrow> ('q, 'db) question \<Rightarrow> (string \<rightharpoonup> bool) \<Rightarrow>
   ('q, 't) notebook_step list" where
  "getQuestionSteps ops qn openSteps =
     (if isStructured qn then
        (let query0 = question_query qn;
             tq = getMLv2Query ops query0;
             allowsNesting =
               (case question_database qn of
                  None \<Rightarrow> False
                | Some db \<Rightarrow> hasFeature ops db ''nested-queries'');
             query1 = cleanNesting ops query0;
             query2 = (if allowsNesting \<and> hasBreakouts ops query1 then nest ops query1 else query1);
             stagedQueries = queries ops query2
         in foldl (add_stage ops tq (length stagedQueries) openSteps) []
              (zip [0 ..< length stagedQueries] stagedQueries))
      else [])"

subsection \<open>Updating a step\<close>

text \<open>
  The loop \<^verbatim>\<open>while ((current = current.next))\<close> of \<^verbatim>\<open>update\<close>: \<open>prev\<close> is
  \<^verbatim>\<open>current.previous\<close>, the list holds the steps from \<^verbatim>\<open>current\<close> on.
\<close>

fun clean_walk ::
  "('q, 'j, 'db, 't, 'd, 'm) query_ops \<Rightarrow> ('q, 't) notebook_step \<Rightarrow>
   ('q, 't) notebook_step list \<Rightarrow> 'q \<Rightarrow> 'q" where
  "clean_walk ops prev [] newQuery = newQuery"
| "clean_walk ops prev (current # rest) newQuery =
     (let newQuery1 =
            (if stageIndex prev < stageIndex current
             then setSourceQuery ops (query current) (query_of ops newQuery)
             else newQuery);
          newQuery2 = clean current newQuery1
      in clean_walk ops current rest newQuery2)"

text \<open>The walk from the step at position \<open>k\<close> of \<open>allSteps\<close>, then \<^verbatim>\<open>cleanNesting\<close>.\<close>

definition cascade ::
  "('q, 'j, 'db, 't, 'd, 'm) query_ops \<Rightarrow> ('q, 't) notebook_step list \<Rightarrow> nat \<Rightarrow> 'q \<Rightarrow> 'q" where
  "cascade ops allSteps k newQuery =
     cleanNesting ops (clean_walk ops (allSteps ! k) (drop (Suc k) allSteps) newQuery)"

definition update ::
  "('q, 'j, 'db, 't, 'd, 'm) query_ops \<Rightarrow> ('q, 't) notebook_step list \<Rightarrow> nat \<Rightarrow> 'd \<Rightarrow> 'q" where
  "update ops allSteps k datasetQuery =
     cascade ops allSteps k (setDatasetQuery ops (query (allSteps ! k)) datasetQuery)"

subsection \<open>A query collaborator to run the definitions on\<close>

text \<open>
  Modelled from the spec: the query collaborator (\<^verbatim>\<open>StructuredQuery\<close>, \<^verbatim>\<open>Join\<close>,
  \<^verbatim>\<open>Database\<close> and the \<^verbatim>\<open>Lib\<close> functions), whose code is not in the file. Concrete
  inputs need a concrete query, and the model below is the smallest one that has every
  method of \<open>query_ops\<close>: a query is a database (the list of the features it supports,
  or no database), the stages below the current one (innermost first) and the current
  stage; a stage holds its table, its field selection, its clause lists and its limit.
  The same type stands for the query of the newer library, for the dataset query and
  for the result of \<^verbatim>\<open>query()\<close>. A join carries what \<^verbatim>\<open>isValid\<close>, \<^verbatim>\<open>hasGaps\<close> and
  \<^verbatim>\<open>clean().isValid\<close> answer; a clause carries whether \<^verbatim>\<open>clean\<close> keeps it.
  The theorems that hold for every collaborator do not use the model; it serves the
  concrete inputs, and the revert of a whole stage.
\<close>

datatype cjoin = CJoin (cj_valid: bool) (cj_gaps: bool) (cj_fixable: bool)

datatype clause = Clause (clause_ref: nat) (clause_ok: bool)

record stage =
  table :: "nat option"
  stage_fields :: "nat list"
  stage_joins :: "cjoin list"
  expressions :: "clause list"
  filters :: "clause list"
  aggregations :: "clause list"
  breakouts :: "clause list"
  sorts :: "clause list"
  limit :: "nat option"

record squery =
  sq_db :: "string list option"
  below :: "stage list"
  current :: stage

text \<open>Modelled from the spec: the stages of a query, innermost first.\<close>

definition stages :: "squery \<Rightarrow> stage list" where
  "stages q = below q @ [current q]"

text \<open>Modelled from the spec: the view of stage \<open>i\<close> of a query, that stage with the
  stages below it.\<close>

definition stage_view :: "squery \<Rightarrow> nat \<Rightarrow> squery" where
  "stage_view q i = \<lparr> sq_db = sq_db q, below = take i (stages q), current = stages q ! i \<rparr>"

text \<open>Modelled from the spec: \<^verbatim>\<open>hasAnyClauses\<close>, on a stage.\<close>

definition stage_has_clauses :: "stage \<Rightarrow> bool" where
  "stage_has_clauses s =
     (stage_joins s \<noteq> [] \<or> expressions s \<noteq> [] \<or> filters s \<noteq> [] \<or> aggregations s \<noteq> [] \<or>
      breakouts s \<noteq> [] \<or> sorts s \<noteq> [] \<or> limit s \<noteq> None \<or> stage_fields s \<noteq> [])"

text \<open>Modelled from the spec: the stage \<^verbatim>\<open>nest\<close> adds, with no table of its own and no
  clause.\<close>

definition empty_stage :: stage where
  "empty_stage =
     \<lparr> table = None, stage_fields = [], stage_joins = [], expressions = [], filters = [],
       aggregations = [], breakouts = [], sorts = [], limit = None \<rparr>"

text \<open>Modelled from the spec: \<^verbatim>\<open>sourceQuery\<close>, the query one level of nesting below, or
  \<^verbatim>\<open>null\<close> for the innermost stage.\<close>

definition m_sourceQuery :: "squery \<Rightarrow> squery option" where
  "m_sourceQuery q =
     (if below q = [] then None else Some (stage_view q (length (below q) - 1)))"

text \<open>Modelled from the spec: \<^verbatim>\<open>hasData\<close>, the innermost stage names a table.\<close>

definition m_hasData :: "squery \<Rightarrow> bool" where
  "m_hasData q = (case below q of [] \<Rightarrow> table (current q) \<noteq> None | s # ss \<Rightarrow> table s \<noteq> None)"

text \<open>Modelled from the spec: \<^verbatim>\<open>removeJoin\<close>, the joins of the stage without the one
  at the index; no join is removed when the index holds none.\<close>

definition m_removeJoin :: "squery \<Rightarrow> nat option \<Rightarrow> squery" where
  "m_removeJoin q index =
     (case index of
        None \<Rightarrow> q
      | Some i \<Rightarrow>
          q\<lparr>current := (current q)\<lparr>stage_joins :=
               take i (stage_joins (current q)) @ drop (Suc i) (stage_joins (current q))\<rparr>\<rparr>)"

text \<open>Modelled from the spec: \<^verbatim>\<open>updateJoin\<close>, the join at the index replaced.\<close>

definition m_updateJoin :: "squery \<Rightarrow> nat option \<Rightarrow> cjoin \<Rightarrow> squery" where
  "m_updateJoin q index j =
     (case index of
        None \<Rightarrow> q
      | Some i \<Rightarrow> q\<lparr>current := (current q)\<lparr>stage_joins := (stage_joins (current q))[i := j]\<rparr>\<rparr>)"

text \<open>Modelled from the spec: \<^verbatim>\<open>clean\<close> of a join, the join repaired when it can be.\<close>

definition m_join_clean :: "cjoin \<Rightarrow> cjoin" where
  "m_join_clean j = CJoin (cj_valid j \<or> cj_fixable j) False (cj_fixable j)"

text \<open>Modelled from the spec: \<^verbatim>\<open>clearExpressions\<close>, the stage without its expressions.\<close>

definition m_clearExpressions :: "squery \<Rightarrow> squery" where
  "m_clearExpressions q = q\<lparr>current := (current q)\<lparr>expressions := []\<rparr>\<rparr>"

text \<open>Modelled from the spec: \<^verbatim>\<open>clearFilters\<close>, the stage without its filters.\<close>

definition m_clearFilters :: "squery \<Rightarrow> squery" where
  "m_clearFilters q = q\<lparr>current := (current q)\<lparr>filters := []\<rparr>\<rparr>"

text \<open>Modelled from the spec: \<^verbatim>\<open>clearBreakouts\<close>, the stage without its breakouts;
  the field selection is wiped too (the reason the revert of summarize gives for its
  test).\<close>

definition m_clearBreakouts :: "squery \<Rightarrow> squery" where
  "m_clearBreakouts q = q\<lparr>current := (current q)\<lparr>breakouts := [], stage_fields := []\<rparr>\<rparr>"

text \<open>Modelled from the spec: \<^verbatim>\<open>clearAggregations\<close>, the stage without its
  aggregations; the field selection is wiped too.\<close>

definition m_clearAggregations :: "squery \<Rightarrow> squery" where
  "m_clearAggregations q = q\<lparr>current := (current q)\<lparr>aggregations := [], stage_fields := []\<rparr>\<rparr>"

text \<open>Modelled from the spec: \<^verbatim>\<open>clearSort\<close>, the stage without its sorts.\<close>

definition m_clearSort :: "squery \<Rightarrow> squery" where
  "m_clearSort q = q\<lparr>current := (current q)\<lparr>sorts := []\<rparr>\<rparr>"

text \<open>Modelled from the spec: \<^verbatim>\<open>cleanExpressions\<close> drops the expressions that cannot
  be kept.\<close>

definition m_cleanExpressions :: "squery \<Rightarrow> squery" where
  "m_cleanExpressions q = q\<lparr>current := (current q)\<lparr>expressions := filter clause_ok (expressions (current q))\<rparr>\<rparr>"

text \<open>Modelled from the spec: \<^verbatim>\<open>cleanFilters\<close> drops the filters that cannot be kept.\<close>

definition m_cleanFilters :: "squery \<Rightarrow> squery" where
  "m_cleanFilters q = q\<lparr>current := (current q)\<lparr>filters := filter clause_ok (filters (current q))\<rparr>\<rparr>"

text \<open>Modelled from the spec: \<^verbatim>\<open>cleanBreakouts\<close> drops the breakouts that cannot be
  kept.\<close>

definition m_cleanBreakouts :: "squery \<Rightarrow> squery" where
  "m_cleanBreakouts q = q\<lparr>current := (current q)\<lparr>breakouts := filter clause_ok (breakouts (current q))\<rparr>\<rparr>"

text \<open>Modelled from the spec: \<^verbatim>\<open>cleanAggregations\<close> drops the aggregations that
  cannot be kept.\<close>

definition m_cleanAggregations :: "squery \<Rightarrow> squery" where
  "m_cleanAggregations q =
     q\<lparr>current := (current q)\<lparr>aggregations := filter clause_ok (aggregations (current q))\<rparr>\<rparr>"

text \<open>Modelled from the spec: \<^verbatim>\<open>cleanSorts\<close> drops the sorts that cannot be kept.\<close>

definition m_cleanSorts :: "squery \<Rightarrow> squery" where
  "m_cleanSorts q = q\<lparr>current := (current q)\<lparr>sorts := filter clause_ok (sorts (current q))\<rparr>\<rparr>"

text \<open>Modelled from the spec: the stage a stage index of the newer library names; the
  index \<open>-1\<close> is the last stage.\<close>

definition lib_stage_number :: "squery \<Rightarrow> int \<Rightarrow> int" where
  "lib_stage_number t si = (if si = - 1 then int (length (stages t)) - 1 else si)"

text \<open>Modelled from the spec: \<^verbatim>\<open>Lib.hasLimit\<close>; a stage that does not exist has no
  limit.\<close>

definition m_hasLimit :: "squery \<Rightarrow> int \<Rightarrow> bool" where
  "m_hasLimit t si =
     (case js_index (stages t) (lib_stage_number t si) of
        None \<Rightarrow> False
      | Some s \<Rightarrow> limit s \<noteq> None)"

text \<open>Modelled from the spec: \<^verbatim>\<open>Lib.limit\<close>, the limit of the named stage set;
  nothing changes when the stage does not exist.\<close>

definition m_limit :: "squery \<Rightarrow> int \<Rightarrow> nat option \<Rightarrow> squery" where
  "m_limit t si v =
     (let n = lib_stage_number t si
      in if 0 \<le> n \<and> n < int (length (below t))
         then t\<lparr>below := (below t)[nat n := (below t ! nat n)\<lparr>limit := v\<rparr>]\<rparr>
         else if n = int (length (below t)) then t\<lparr>current := (current t)\<lparr>limit := v\<rparr>\<rparr>
         else t)"

text \<open>Modelled from the spec: \<^verbatim>\<open>queries\<close>, the views of all stages, innermost first.\<close>

definition m_queries :: "squery \<Rightarrow> squery list" where
  "m_queries q = map (stage_view q) [0 ..< length (stages q)]"

text \<open>Modelled from the spec: \<^verbatim>\<open>setSourceQuery\<close>, the current stage above the
  stages of the given query.\<close>

definition m_setSourceQuery :: "squery \<Rightarrow> squery \<Rightarrow> squery" where
  "m_setSourceQuery q src = q\<lparr>below := stages src\<rparr>"

text \<open>Modelled from the spec: \<^verbatim>\<open>cleanNesting\<close> strips the stages above the innermost
  one that hold no clause.\<close>

definition m_cleanNesting :: "squery \<Rightarrow> squery" where
  "m_cleanNesting q =
     (case below q of
        [] \<Rightarrow> q
      | s # ss \<Rightarrow>
          (case rev (filter stage_has_clauses (ss @ [current q])) of
             [] \<Rightarrow> q\<lparr>below := [], current := s\<rparr>
           | t # ts \<Rightarrow> q\<lparr>below := s # rev ts, current := t\<rparr>))"

text \<open>Modelled from the spec: \<^verbatim>\<open>nest\<close> puts one new, empty stage above the others.\<close>

definition m_nest :: "squery \<Rightarrow> squery" where
  "m_nest q = q\<lparr>below := stages q, current := empty_stage\<rparr>"

text \<open>Modelled from the spec: the collaborator as a whole. A database is the list of
  its features; \<^verbatim>\<open>hasExpressions\<close>, \<^verbatim>\<open>hasFilters\<close>, \<^verbatim>\<open>hasAggregations\<close>,
  \<^verbatim>\<open>hasBreakouts\<close> and \<^verbatim>\<open>hasSorts\<close> say whether the stage has a clause of the kind;
  \<^verbatim>\<open>setDatasetQuery\<close> gives the query of the dataset query it is handed; the conversions
  between the representations are the identity.\<close>

definition model_ops :: "(squery, cjoin, string list, squery, squery, squery) query_ops" where
  "model_ops =
     \<lparr> sourceQuery = m_sourceQuery,
       database = sq_db,
       hasFeature = (\<lambda>db name. name \<in> set db),
       supportsExpressions = (\<lambda>db. ''expressions'' \<in> set db),
       hasData = m_hasData,
       joins = (\<lambda>q. stage_joins (current q)),
       removeJoin = m_removeJoin,
       updateJoin = m_updateJoin,
       join_isValid = cj_valid,
       join_hasGaps = cj_gaps,
       join_clean = m_join_clean,
       hasExpressions = (\<lambda>q. expressions (current q) \<noteq> []),
       clearExpressions = m_clearExpressions,
       cleanExpressions = m_cleanExpressions,
       hasFilters = (\<lambda>q. filters (current q) \<noteq> []),
       clearFilters = m_clearFilters,
       cleanFilters = m_cleanFilters,
       hasAggregations = (\<lambda>q. aggregations (current q) \<noteq> []),
       hasBreakouts = (\<lambda>q. breakouts (current q) \<noteq> []),
       clearBreakouts = m_clearBreakouts,
       clearAggregations = m_clearAggregations,
       cleanBreakouts = m_cleanBreakouts,
       cleanAggregations = m_cleanAggregations,
       hasSorts = (\<lambda>q. sorts (current q) \<noteq> []),
       clearSort = m_clearSort,
       cleanSorts = m_cleanSorts,
       hasAnyClauses = (\<lambda>q. stage_has_clauses (current q)),
       Lib_hasLimit = m_hasLimit,
       Lib_limit = m_limit,
       Lib_toLegacyQuery = (\<lambda>t. t),
       setDatasetQuery = (\<lambda>q d. d),
       queries = m_queries,
       setSourceQuery = m_setSourceQuery,
       query_of = (\<lambda>q. q),
       cleanNesting = m_cleanNesting,
       nest = m_nest,
       getMLv2Query = (\<lambda>q. q) \<rparr>"

subsection \<open>Notions the statements use\<close>

text \<open>
  Reverting with a step, on a query that may already be missing: a step with no revert
  leaves it, a missing query stays missing. \<open>revert_chain steps q\<close> reverts \<open>q\<close> by
  every step of the list, the last one first, each result the base of the next.
\<close>

definition apply_revert :: "('q, 't) notebook_step \<Rightarrow> 'q option \<Rightarrow> 'q option" where
  "apply_revert s pq = (case revert s of None \<Rightarrow> pq | Some r \<Rightarrow> Option.bind pq r)"

definition revert_chain :: "('q, 't) notebook_step list \<Rightarrow> 'q \<Rightarrow> 'q option" where
  "revert_chain steps q = foldr apply_revert steps (Some q)"

text \<open>
  The previews as the specification words them, by recursion on the list of instances
  in catalog order: a visible instance previews nothing when it is inactive, and the
  stage query reverted by all later instances when it is active; a hidden instance
  has no entry.
\<close>

fun visible_previews :: "('q, 't) notebook_step list \<Rightarrow> 'q \<Rightarrow> 'q option list" where
  "visible_previews [] q = []"
| "visible_previews (s # later) q =
     (if visible s then [if active s then revert_chain later q else None] else []) @
     visible_previews later q"

text \<open>
  The actions as the specification words them: a visible instance carries one action
  for each valid hidden instance between it and the next visible one, in catalog
  order; \<open>leading_actions\<close> are those before the first visible instance.
\<close>

definition open_action :: "('q, 't) notebook_step \<Rightarrow> step_action" where
  "open_action s = \<lparr>action_type = step_type s, action_opens = step_id s\<rparr>"

definition leading_actions :: "('q, 't) notebook_step list \<Rightarrow> step_action list" where
  "leading_actions steps = map open_action (filter valid (takeWhile (\<lambda>s. \<not> visible s) steps))"

fun visible_actions :: "('q, 't) notebook_step list \<Rightarrow> step_action list list" where
  "visible_actions [] = []"
| "visible_actions (s # later) =
     (if visible s then [leading_actions later] else []) @ visible_actions later"


text \<open>A step instance as \<open>getStep\<close> left it, before the loops filled in the preview and
  the actions.\<close>

definition unannotated :: "('q, 't) notebook_step \<Rightarrow> ('q, 't) notebook_step" where
  "unannotated s = s\<lparr>previewQuery := None, actions := []\<rparr>"

text \<open>
  The reverse loop as a recursion on the list of instances still to visit: the head is
  visited after the tail. The state holds the instances kept so far in place of the
  whole array.
\<close>

definition visit :: "('q, 't) notebook_step \<Rightarrow> ('q, 't) loop_state \<Rightarrow> ('q, 't) loop_state" where
  "visit s st =
     (case st of (kept, pq, acts) \<Rightarrow>
        (if visible s
         then s\<lparr>previewQuery := (if active s then pq else None), actions := acts\<rparr> # kept
         else kept,
         apply_revert s pq,
         if visible s then [] else if valid s then open_action s # acts else acts))"

definition sweep :: "('q, 't) notebook_step list \<Rightarrow> ('q, 't) loop_state \<Rightarrow> ('q, 't) loop_state" where
  "sweep steps st = foldr visit steps st"

text \<open>The stages \<open>getQuestionSteps\<close> walks over.\<close>

definition question_stages ::
  "('q, 'j, 'db, 't, 'd, 'm) query_ops \<Rightarrow> ('q, 'db) question \<Rightarrow> 'q list" where
  "question_stages ops qn =
     (let query1 = cleanNesting ops (question_query qn)
      in queries ops
           (if (case question_database qn of
                  None \<Rightarrow> False
                | Some db \<Rightarrow> hasFeature ops db ''nested-queries'') \<and> hasBreakouts ops query1
            then nest ops query1 else query1))"

text \<open>The instances of all stages before the reverse loops: stage \<open>i\<close> of \<open>n\<close> is the last
  one when \<open>i = n - 1\<close>.\<close>

definition question_rawSteps ::
  "('q, 'j, 'db, 't, 'd, 'm) query_ops \<Rightarrow> ('q, 'db) question \<Rightarrow> (string \<rightharpoonup> bool) \<Rightarrow> nat \<Rightarrow>
   ('q, 't) notebook_step list" where
  "question_rawSteps ops qn openSteps i =
     rawSteps ops (getMLv2Query ops (question_query qn)) (question_stages ops qn ! i) i
       (Suc i = length (question_stages ops qn)) openSteps"

text \<open>The steps \<open>getQuestionSteps\<close> gets for stage \<open>i\<close> from \<open>getStageSteps\<close>, with the
  arguments it passes.\<close>

definition question_stageSteps ::
  "('q, 'j, 'db, 't, 'd, 'm) query_ops \<Rightarrow> ('q, 'db) question \<Rightarrow> (string \<rightharpoonup> bool) \<Rightarrow> nat \<Rightarrow>
   ('q, 't) notebook_step list" where
  "question_stageSteps ops qn openSteps i =
     fst (getStageSteps ops (getMLv2Query ops (question_query qn)) (question_stages ops qn ! i) i
            (Suc i = length (question_stages ops qn)) openSteps)"

subsection \<open>Concrete queries\<close>

definition db_full :: "string list" where
  "db_full = [''join'', ''expressions'', ''nested-queries'']"

definition plain_stage :: stage where
  "plain_stage = empty_stage\<lparr>table := Some 1\<rparr>"

definition on_db :: "stage list \<Rightarrow> stage \<Rightarrow> squery" where
  "on_db ss s = \<lparr> sq_db = Some db_full, below = ss, current = s \<rparr>"

definition as_question :: "squery \<Rightarrow> (squery, string list) question" where
  "as_question q = \<lparr> isStructured = True, question_query = q, question_database = sq_db q \<rparr>"

text \<open>A table and nothing else.\<close>

definition q_plain :: squery where
  "q_plain = on_db [] plain_stage"

text \<open>Two sound joins; two joins that are invalid, complete and beyond repair; one
  invalid join that still has gaps; one invalid, complete join beyond repair.\<close>

definition q_two_joins :: squery where
  "q_two_joins = on_db [] (plain_stage\<lparr>stage_joins := [CJoin True False True, CJoin True False True]\<rparr>)"

definition q_broken_joins :: squery where
  "q_broken_joins =
     on_db [] (plain_stage\<lparr>stage_joins := [CJoin False False False, CJoin False False False]\<rparr>)"

definition q_gap_join :: squery where
  "q_gap_join = on_db [] (plain_stage\<lparr>stage_joins := [CJoin False True False]\<rparr>)"

definition q_bad_join :: squery where
  "q_bad_join = on_db [] (plain_stage\<lparr>stage_joins := [CJoin False False False]\<rparr>)"

text \<open>A filter, a sort and a limit; a count with a limit and no breakout.\<close>

definition q_filtered :: squery where
  "q_filtered =
     on_db [] (plain_stage\<lparr>filters := [Clause 1 True], sorts := [Clause 2 True], limit := Some 10\<rparr>)"

definition q_count_limit :: squery where
  "q_count_limit = on_db [] (plain_stage\<lparr>aggregations := [Clause 1 True], limit := Some 5\<rparr>)"

text \<open>A filter that \<^verbatim>\<open>cleanFilters\<close> drops.\<close>

definition q_bad_filter :: squery where
  "q_bad_filter = on_db [] (plain_stage\<lparr>filters := [Clause 1 False]\<rparr>)"

text \<open>A limit under an empty stage, which \<^verbatim>\<open>cleanNesting\<close> strips; a field selection next
  to a grouped count.\<close>

definition q_stripped :: squery where
  "q_stripped = on_db [plain_stage\<lparr>limit := Some 4\<rparr>] empty_stage"

definition q_fields_count :: squery where
  "q_fields_count =
     on_db [] (plain_stage\<lparr>stage_fields := [7], aggregations := [Clause 1 True],
                            breakouts := [Clause 2 True]\<rparr>)"

text \<open>Two stages: a grouped count with a sort, and above it a filter with a sort and a
  limit.\<close>

definition q_nested :: squery where
  "q_nested =
     on_db [plain_stage\<lparr>aggregations := [Clause 1 True], breakouts := [Clause 2 True],
                        sorts := [Clause 2 True]\<rparr>]
       (empty_stage\<lparr>filters := [Clause 3 True], sorts := [Clause 1 True], limit := Some 3\<rparr>)"

text \<open>
  The query of a stage with only its data step, in the model: the database, the stages
  below, the table and the field selection as they are, and no join, expression,
  filter, aggregation, breakout, sort or limit.
\<close>

definition data_only :: "squery \<Rightarrow> squery" where
  "data_only q =
     q\<lparr>current := (current q)
         \<lparr>stage_joins := [], expressions := [], filters := [], aggregations := [],
          breakouts := [], sorts := [], limit := None\<rparr>\<rparr>"

text \<open>A grouped count with a sort, over which \<^verbatim>\<open>nest\<close> puts a stage.\<close>

definition q_grouped :: squery where
  "q_grouped =
     on_db [] (plain_stage\<lparr>aggregations := [Clause 1 True], breakouts := [Clause 2 True],
                            sorts := [Clause 2 True]\<rparr>)"

section \<open>Properties\<close>

subsection \<open>The reverse loop is a sweep over the instances\<close>

lemma apply_revert_eq:
  "apply_revert s pq =
     (case revert s of None \<Rightarrow> pq | Some r \<Rightarrow> (case pq of None \<Rightarrow> pq | Some q \<Rightarrow> r q))"
  by (simp add: apply_revert_def split: option.splits)

lemma sweep_Nil [simp]: "sweep [] st = st"
  by (simp add: sweep_def)

lemma sweep_Cons [simp]: "sweep (s # steps) st = visit s (sweep steps st)"
  by (simp add: sweep_def)

lemma sweep_append: "sweep (xs @ ys) st = sweep xs (sweep ys st)"
  by (simp add: sweep_def)

lemma loop_turn_at_end:
  "loop_turn (length xs) (xs @ x # ks, pq, acts) = 
     (case visit x (ks, pq, acts) of (kept, r) \<Rightarrow> (xs @ kept, r))"
  by (simp add: loop_turn_def visit_def apply_revert_eq open_action_def Let_def)

lemma visit_preview: "fst (snd (visit s st)) = apply_revert s (fst (snd st))"
  by (cases st) (simp add: visit_def)

lemma visit_acts:
  "snd (snd (visit s st)) =
     (if visible s then [] else if valid s then open_action s # snd (snd st) else snd (snd st))"
  by (cases st) (simp add: visit_def)

lemma visit_kept:
  "fst (visit s st) =
     (if visible s
      then s\<lparr>previewQuery := (if active s then fst (snd st) else None),
             actions := snd (snd st)\<rparr> # fst st
      else fst st)"
  by (cases st) (simp add: visit_def)


lemma stage_loop_sweep:
  "stage_loop (length xs) (xs @ ks, pq, acts) = sweep xs (ks, pq, acts)"
proof (induction xs arbitrary: ks pq acts rule: rev_induct)
  case Nil
  show ?case by simp
next
  case (snoc x xs)
  obtain kept pq' acts' where v: "visit x (ks, pq, acts) = (kept, pq', acts')"
    by (cases "visit x (ks, pq, acts)") auto
  have "stage_loop (length (xs @ [x])) ((xs @ [x]) @ ks, pq, acts)
        = stage_loop (length xs) (loop_turn (length xs) (xs @ x # ks, pq, acts))"
    by simp
  also have "\<dots> = stage_loop (length xs) (xs @ kept, pq', acts')"
    by (simp add: loop_turn_at_end v)
  also have "\<dots> = sweep xs (kept, pq', acts')"
    by (rule snoc.IH)
  also have "\<dots> = sweep (xs @ [x]) (ks, pq, acts)"
    by (simp add: sweep_append v)
  finally show ?case .
qed

lemma getStageSteps_sweep:
  "getStageSteps ops tq q i isLast openSteps =
     (case sweep (rawSteps ops tq q i isLast openSteps) ([], Some q, []) of
        (kept, pq, acts) \<Rightarrow> (kept, acts))"
  using stage_loop_sweep [of "rawSteps ops tq q i isLast openSteps" "[]" "Some q" "[]"]
  by (simp add: getStageSteps_def Let_def)

lemma sweep_preview:
  "fst (snd (sweep steps (ks, Some q, acts))) = revert_chain steps q"
  by (induction steps) (simp_all add: revert_chain_def visit_preview)

lemma sweep_kept_previews:
  "map previewQuery (fst (sweep steps (ks, Some q, acts))) =
     visible_previews steps q @ map previewQuery ks"
proof (induction steps)
  case Nil
  show ?case by simp
next
  case (Cons s steps)
  obtain kept pq acts' where sw: "sweep steps (ks, Some q, acts) = (kept, pq, acts')"
    by (cases "sweep steps (ks, Some q, acts)") auto
  have pq: "pq = revert_chain steps q"
    using sweep_preview [of steps ks q acts] by (simp add: sw)
  from Cons.IH show ?case
    by (simp add: sw visit_def pq)
qed

lemma sweep_kept_unannotated:
  "map unannotated (fst (sweep steps (ks, pq, acts))) =
     map unannotated (filter visible steps) @ map unannotated ks"
proof (induction steps)
  case Nil
  show ?case by simp
next
  case (Cons s steps)
  obtain kept pq' acts' where sw: "sweep steps (ks, pq, acts) = (kept, pq', acts')"
    by (cases "sweep steps (ks, pq, acts)") auto
  from Cons.IH show ?case
    by (simp add: sw visit_def unannotated_def)
qed

lemma sweep_acts:
  "snd (snd (sweep steps (ks, pq, []))) = leading_actions steps"
  by (induction steps) (simp_all add: visit_acts leading_actions_def)

lemma sweep_kept_actions:
  "map actions (fst (sweep steps (ks, pq, []))) = visible_actions steps @ map actions ks"
proof (induction steps)
  case Nil
  show ?case by simp
next
  case (Cons s steps)
  have "snd (snd (sweep steps (ks, pq, []))) = leading_actions steps"
    by (rule sweep_acts)
  with Cons.IH show ?case
    by (simp add: visit_kept)
qed

subsection \<open>The loops keep the visible instances, in order\<close>

lemma getStep_unannotated [simp]:
  "unannotated (getStep tq q i isLast openSteps STEP item) = getStep tq q i isLast openSteps STEP item"
  by (simp add: unannotated_def getStep_def Let_def)

lemma rawSteps_eq:
  "rawSteps ops tq q i isLast openSteps =
     getStep tq q i isLast openSteps (data_def ops) None #
     map (\<lambda>k. getStep tq q i isLast openSteps (join_def ops) (Some k))
       [0 ..< Suc (length (joins ops q))] @
     [getStep tq q i isLast openSteps (expression_def ops) None,
      getStep tq q i isLast openSteps (filter_def ops) None,
      getStep tq q i isLast openSteps (summarize_def ops) None,
      getStep tq q i isLast openSteps (sort_def ops) None,
      getStep tq q i isLast openSteps (limit_def ops) None]"
  by (simp add: rawSteps_def STEPS_def data_def_def join_def_def expression_def_def
      filter_def_def summarize_def_def sort_def_def limit_def_def Let_def del: upt_Suc)

lemma rawSteps_unannotated:
  "map unannotated (rawSteps ops tq q i isLast openSteps) = rawSteps ops tq q i isLast openSteps"
  by (simp add: rawSteps_eq o_def del: upt_Suc)

lemma fst_getStageSteps:
  "fst (getStageSteps ops tq q i isLast openSteps) =
     fst (sweep (rawSteps ops tq q i isLast openSteps) ([], Some q, []))"
  by (simp add: getStageSteps_sweep case_prod_beta)

lemma snd_getStageSteps:
  "snd (getStageSteps ops tq q i isLast openSteps) =
     leading_actions (rawSteps ops tq q i isLast openSteps)"
  using sweep_acts [of "rawSteps ops tq q i isLast openSteps" "[]" "Some q"]
  by (simp add: getStageSteps_sweep case_prod_beta)

lemma getStageSteps_unannotated:
  "map unannotated (fst (getStageSteps ops tq q i isLast openSteps)) =
     filter visible (rawSteps ops tq q i isLast openSteps)"
proof -
  have "map unannotated (fst (getStageSteps ops tq q i isLast openSteps)) =
        map unannotated (filter visible (rawSteps ops tq q i isLast openSteps))"
    using sweep_kept_unannotated [of "rawSteps ops tq q i isLast openSteps" "[]" "Some q" "[]"]
    by (simp add: fst_getStageSteps)
  also have "\<dots> = filter visible (map unannotated (rawSteps ops tq q i isLast openSteps))"
    by (simp add: filter_map o_def unannotated_def)
  finally show ?thesis
    by (simp add: rawSteps_unannotated)
qed

lemma add_stage_unannotated:
  "map unannotated (add_stage ops tq n openSteps allSteps (i, q)) =
     map unannotated allSteps @ filter visible (rawSteps ops tq q i (Suc i = n) openSteps)"
proof -
  have last: "int i = int n - 1 \<longleftrightarrow> Suc i = n"
    by auto
  have upd: "map unannotated (allSteps[k := (allSteps ! k)\<lparr>actions := a\<rparr>]) = map unannotated allSteps"
    for k a
  proof (cases "k < length allSteps")
    case True
    have "unannotated ((allSteps ! k)\<lparr>actions := a\<rparr>) = map unannotated allSteps ! k"
      using True by (simp add: unannotated_def)
    then show ?thesis
      by (simp add: map_update)
  next
    case False
    then have "allSteps[k := (allSteps ! k)\<lparr>actions := a\<rparr>] = allSteps"
      by (intro list_update_beyond) simp
    then show ?thesis by simp
  qed
  obtain steps acts where g: "getStageSteps ops tq q i (Suc i = n) openSteps = (steps, acts)"
    by (cases "getStageSteps ops tq q i (Suc i = n) openSteps") auto
  have "map unannotated steps = filter visible (rawSteps ops tq q i (Suc i = n) openSteps)"
    using getStageSteps_unannotated [of ops tq q i "Suc i = n" openSteps] by (simp add: g)
  then show ?thesis
    by (simp add: add_stage_def last g upd Let_def)
qed

lemma foldl_add_stage_unannotated:
  "map unannotated (foldl (add_stage ops tq n openSteps) acc es) =
     map unannotated acc @
     concat (map (\<lambda>(i, q). filter visible (rawSteps ops tq q i (Suc i = n) openSteps)) es)"
proof (induction es arbitrary: acc)
  case Nil
  show ?case by simp
next
  case (Cons e es)
  obtain i q where e: "e = (i, q)" by (cases e) auto
  show ?case
    by (simp add: Cons.IH e add_stage_unannotated)
qed

lemma zip_upt_nth: "zip [0 ..< length xs] xs = map (\<lambda>i. (i, xs ! i)) [0 ..< length xs]"
  by (rule nth_equalityI) simp_all

lemma getQuestionSteps_unannotated:
  "map unannotated (getQuestionSteps ops qn openSteps) =
     (if isStructured qn
      then concat (map (\<lambda>i. filter visible (question_rawSteps ops qn openSteps i))
                    [0 ..< length (question_stages ops qn)])
      else [])"
proof (cases "isStructured qn")
  case False
  then show ?thesis by (simp add: getQuestionSteps_def)
next
  case True
  have "getQuestionSteps ops qn openSteps =
        foldl (add_stage ops (getMLv2Query ops (question_query qn))
                 (length (question_stages ops qn)) openSteps) []
          (zip [0 ..< length (question_stages ops qn)] (question_stages ops qn))"
    by (simp add: getQuestionSteps_def question_stages_def True Let_def)
  then show ?thesis
    by (simp add: True foldl_add_stage_unannotated zip_upt_nth o_def question_rawSteps_def)
qed

lemma in_getStageSteps:
  assumes "s \<in> set (fst (getStageSteps ops tq q i isLast openSteps))"
  shows "unannotated s \<in> set (rawSteps ops tq q i isLast openSteps) \<and> visible (unannotated s)"
proof -
  from assms have "unannotated s \<in> set (map unannotated (fst (getStageSteps ops tq q i isLast openSteps)))"
    by simp
  then show ?thesis
    by (simp add: getStageSteps_unannotated)
qed

lemma in_getQuestionSteps:
  assumes "s \<in> set (getQuestionSteps ops qn openSteps)"
  shows "\<exists>i < length (question_stages ops qn).
           unannotated s \<in> set (question_rawSteps ops qn openSteps i) \<and> visible (unannotated s)"
proof -
  from assms have "unannotated s \<in> set (map unannotated (getQuestionSteps ops qn openSteps))"
    by simp
  then show ?thesis
    by (auto simp: getQuestionSteps_unannotated split: if_splits)
qed

lemma unannotated_fields [simp]:
  "visible (unannotated s) = visible s" "valid (unannotated s) = valid s"
  "active (unannotated s) = active s" "step_id (unannotated s) = step_id s"
  "step_type (unannotated s) = step_type s" "stageIndex (unannotated s) = stageIndex s"
  "itemIndex (unannotated s) = itemIndex s" "query (unannotated s) = query s"
  "revert (unannotated s) = revert s" "clean (unannotated s) = clean s"
  "testID (unannotated s) = testID s" "topLevelQuery (unannotated s) = topLevelQuery s"
  by (simp_all add: unannotated_def)

lemma in_rawSteps:
  assumes "s \<in> set (rawSteps ops tq q i isLast openSteps)"
  shows "\<exists>STEP item. STEP \<in> set (STEPS ops) \<and> s = getStep tq q i isLast openSteps STEP item"
  using assms by (auto simp: rawSteps_def Let_def split: option.splits) blast+

lemma raw_visible:
  assumes "s \<in> set (rawSteps ops tq q i isLast openSteps)"
  shows "visible s = (valid s \<and> (active s \<or> truthy (openSteps (step_id s))))"
  using in_rawSteps [OF assms] by (auto simp: getStep_def Let_def)

text \<open>
  Claim C2. Every step instance of a derivation pass has
  \<open>visible = (valid \<and> (active \<or> forced open under its id))\<close>: the instances
  \<open>getStep\<close> builds for a stage, those \<open>getStageSteps\<close> returns and those
  \<open>getQuestionSteps\<close> returns, for every query and every force-open set. The returned
  ones are all visible, hence all valid.
\<close>

theorem visible_is_valid_and_shown:
  "(\<forall>s \<in> set (rawSteps ops tq q i isLast openSteps).
      visible s = (valid s \<and> (active s \<or> truthy (openSteps (step_id s))))) \<and>
   (\<forall>s \<in> set (fst (getStageSteps ops tq q i isLast openSteps)).
      visible s = (valid s \<and> (active s \<or> truthy (openSteps (step_id s)))) \<and> visible s \<and> valid s) \<and>
   (\<forall>s \<in> set (getQuestionSteps ops qn openSteps).
      visible s = (valid s \<and> (active s \<or> truthy (openSteps (step_id s)))) \<and> visible s \<and> valid s)"
proof (intro conjI ballI)
  fix s assume "s \<in> set (rawSteps ops tq q i isLast openSteps)"
  then show "visible s = (valid s \<and> (active s \<or> truthy (openSteps (step_id s))))"
    by (rule raw_visible)
next
  fix s assume "s \<in> set (fst (getStageSteps ops tq q i isLast openSteps))"
  then have "unannotated s \<in> set (rawSteps ops tq q i isLast openSteps)" and v: "visible s"
    using in_getStageSteps by fastforce+
  then have "visible s = (valid s \<and> (active s \<or> truthy (openSteps (step_id s))))"
    using raw_visible by fastforce
  with v show "visible s = (valid s \<and> (active s \<or> truthy (openSteps (step_id s))))"
    "visible s" "valid s" by auto
next
  fix s assume "s \<in> set (getQuestionSteps ops qn openSteps)"
  then obtain j where "unannotated s \<in> set (question_rawSteps ops qn openSteps j)" and v: "visible s"
    using in_getQuestionSteps by fastforce
  then have "visible s = (valid s \<and> (active s \<or> truthy (openSteps (step_id s))))"
    unfolding question_rawSteps_def using raw_visible by fastforce
  with v show "visible s = (valid s \<and> (active s \<or> truthy (openSteps (step_id s))))"
    "visible s" "valid s" by auto
qed

theorem visible_is_valid_and_shown_witness:
  "list_all (\<lambda>s. visible s = (valid s \<and> (active s \<or> truthy ([''1:join'' \<mapsto> True] (step_id s)))) \<and>
                  visible s \<and> valid s)
     (getQuestionSteps model_ops (as_question q_nested) [''1:join'' \<mapsto> True]) \<and>
   map step_id (getQuestionSteps model_ops (as_question q_nested) [''1:join'' \<mapsto> True]) =
     [''0:data'', ''0:summarize'', ''0:sort'', ''1:join'', ''1:filter'', ''1:sort'', ''1:limit''] \<and>
   map active (getQuestionSteps model_ops (as_question q_nested) [''1:join'' \<mapsto> True]) =
     [True, True, True, False, True, True, True]"
proof -
  have "list_all (\<lambda>s. visible s = (valid s \<and> (active s \<or> truthy ([''1:join'' \<mapsto> True] (step_id s)))) \<and>
                  visible s \<and> valid s)
     (getQuestionSteps model_ops (as_question q_nested) [''1:join'' \<mapsto> True])"
    unfolding list_all_iff
    using visible_is_valid_and_shown [where ops = model_ops and qn = "as_question q_nested"
        and openSteps = "[''1:join'' \<mapsto> True]"]
    by blast
  moreover have "map step_id (getQuestionSteps model_ops (as_question q_nested) [''1:join'' \<mapsto> True]) =
     [''0:data'', ''0:summarize'', ''0:sort'', ''1:join'', ''1:filter'', ''1:sort'', ''1:limit'']"
    by code_simp
  moreover have "map active (getQuestionSteps model_ops (as_question q_nested) [''1:join'' \<mapsto> True]) =
     [True, True, True, False, True, True, True]"
    by code_simp
  ultimately show ?thesis by simp
qed

lemma raw_stageIndex:
  assumes "s \<in> set (rawSteps ops tq q i isLast openSteps)"
  shows "stageIndex s = (if step_type s \<in> {''sort'', ''limit''} \<and> isLast then - 1 else int i)"
  using in_rawSteps [OF assms]
  by (auto simp: getStep_def Let_def getMLv2StageIndex_def MLV2_STEPS_def)

lemma raw_query:
  assumes "s \<in> set (rawSteps ops tq q i isLast openSteps)"
  shows "query s = q"
  using in_rawSteps [OF assms] by (auto simp: getStep_def Let_def)

text \<open>
  Claim C5. A sort or limit instance derived for the last stage carries the stage index
  \<open>-1\<close>; a sort or limit instance of another stage, and an instance of any other type
  in any stage, carries the literal index of its stage. This holds for the instances of
  one stage and for every step \<open>getQuestionSteps\<close> returns, whose stage is named by
  its \<open>query\<close>.
\<close>

theorem sort_limit_stage_index:
  "(\<forall>s \<in> set (rawSteps ops tq q i isLast openSteps).
      stageIndex s = (if step_type s \<in> {''sort'', ''limit''} \<and> isLast then - 1 else int i)) \<and>
   (\<forall>s \<in> set (getQuestionSteps ops qn openSteps).
      \<exists>i < length (question_stages ops qn).
        query s = question_stages ops qn ! i \<and>
        stageIndex s =
          (if step_type s \<in> {''sort'', ''limit''} \<and> Suc i = length (question_stages ops qn)
           then - 1 else int i))"
proof (intro conjI ballI)
  fix s assume "s \<in> set (rawSteps ops tq q i isLast openSteps)"
  then show "stageIndex s = (if step_type s \<in> {''sort'', ''limit''} \<and> isLast then - 1 else int i)"
    by (rule raw_stageIndex)
next
  fix s assume "s \<in> set (getQuestionSteps ops qn openSteps)"
  then obtain j where j: "j < length (question_stages ops qn)"
    and raw: "unannotated s \<in> set (question_rawSteps ops qn openSteps j)"
    using in_getQuestionSteps by blast
  from raw have "query (unannotated s) = question_stages ops qn ! j"
    unfolding question_rawSteps_def by (rule raw_query)
  moreover from raw have "stageIndex (unannotated s) =
      (if step_type (unannotated s) \<in> {''sort'', ''limit''} \<and> Suc j = length (question_stages ops qn)
       then - 1 else int j)"
    unfolding question_rawSteps_def by (rule raw_stageIndex)
  ultimately show "\<exists>i < length (question_stages ops qn).
        query s = question_stages ops qn ! i \<and>
        stageIndex s =
          (if step_type s \<in> {''sort'', ''limit''} \<and> Suc i = length (question_stages ops qn)
           then - 1 else int i)"
    using j by auto
qed

theorem sort_limit_stage_index_witness:
  "list_all (\<lambda>s. \<exists>i < length (question_stages model_ops (as_question q_nested)).
        query s = question_stages model_ops (as_question q_nested) ! i \<and>
        stageIndex s =
          (if step_type s \<in> {''sort'', ''limit''} \<and>
              Suc i = length (question_stages model_ops (as_question q_nested))
           then - 1 else int i))
     (getQuestionSteps model_ops (as_question q_nested) Map.empty) \<and>
   map (\<lambda>s. (step_id s, stageIndex s)) (getQuestionSteps model_ops (as_question q_nested) Map.empty) =
     [(''0:data'', 0), (''0:summarize'', 0), (''0:sort'', 0), (''1:filter'', 1), (''1:sort'', - 1),
      (''1:limit'', - 1)]"
proof -
  have "list_all (\<lambda>s. \<exists>i < length (question_stages model_ops (as_question q_nested)).
        query s = question_stages model_ops (as_question q_nested) ! i \<and>
        stageIndex s =
          (if step_type s \<in> {''sort'', ''limit''} \<and>
              Suc i = length (question_stages model_ops (as_question q_nested))
           then - 1 else int i))
     (getQuestionSteps model_ops (as_question q_nested) Map.empty)"
    unfolding list_all_iff
    using sort_limit_stage_index [where ops = model_ops and qn = "as_question q_nested"
        and openSteps = Map.empty]
    by blast
  moreover have "map (\<lambda>s. (step_id s, stageIndex s))
       (getQuestionSteps model_ops (as_question q_nested) Map.empty) =
     [(''0:data'', 0), (''0:summarize'', 0), (''0:sort'', 0), (''1:filter'', 1), (''1:sort'', - 1),
      (''1:limit'', - 1)]"
    by code_simp
  ultimately show ?thesis by simp
qed

subsection \<open>Identifiers\<close>

lemma string_of_nat_0: "string_of_nat 0 = ''0''"
  by (simp add: string_of_nat.simps [of 0] digit_char_def)

lemma first_join_in_rawSteps:
  "getStep tq q i isLast openSteps (join_def ops) (Some 0) \<in>
     set (rawSteps ops tq q i isLast openSteps)"
proof -
  have "[0 ..< Suc (length (joins ops q))] = 0 # [Suc 0 ..< Suc (length (joins ops q))]"
    by (rule upt_conv_Cons) simp
  then show ?thesis
    by (simp add: rawSteps_eq del: upt_Suc)
qed

text \<open>
  Claim C9. For an instance built with item index 0, the id is
  \<open>{stage}:{type}\<close> with no item suffix and the test id ends in \<open>-0\<close>, both exactly as
  for no item index, while the field \<open>itemIndex\<close> of the instance is 0; an item index
  above 0 adds \<open>:{itemIndex}\<close> to the id and ends the test id. The first join
  instance of a stage is such an instance with item index 0, and the stage number in
  its id is its \<open>stageIndex\<close>.
\<close>

theorem item_zero_has_no_suffix:
  "step_id (getStep tq q i isLast openSteps STEP (Some 0)) = string_of_nat i @ '':'' @ def_type STEP \<and>
   step_id (getStep tq q i isLast openSteps STEP (Some 0)) =
     step_id (getStep tq q i isLast openSteps STEP None) \<and>
   testID (getStep tq q i isLast openSteps STEP (Some 0)) =
     ''step-'' @ def_type STEP @ ''-'' @ string_of_nat i @ ''-0'' \<and>
   testID (getStep tq q i isLast openSteps STEP (Some 0)) =
     testID (getStep tq q i isLast openSteps STEP None) \<and>
   itemIndex (getStep tq q i isLast openSteps STEP (Some 0)) = Some 0 \<and>
   itemIndex (getStep tq q i isLast openSteps STEP None) = None \<and>
   (0 < k \<longrightarrow>
      step_id (getStep tq q i isLast openSteps STEP (Some k)) =
        string_of_nat i @ '':'' @ def_type STEP @ '':'' @ string_of_nat k \<and>
      testID (getStep tq q i isLast openSteps STEP (Some k)) =
        ''step-'' @ def_type STEP @ ''-'' @ string_of_nat i @ ''-'' @ string_of_nat k \<and>
      itemIndex (getStep tq q i isLast openSteps STEP (Some k)) = Some k) \<and>
   getStep tq q i isLast openSteps (join_def ops) (Some 0) \<in>
     set (rawSteps ops tq q i isLast openSteps) \<and>
   stageIndex (getStep tq q i isLast openSteps (join_def ops) (Some 0)) = int i"
  using first_join_in_rawSteps [of tq q i isLast openSteps ops]
  by (simp add: getStep_def getId_def getTestId_def isValidItemIndex_def string_of_nat_0 Let_def
      getMLv2StageIndex_def MLV2_STEPS_def join_def_def)

theorem item_zero_has_no_suffix_witness:
  "step_id (getStep q_two_joins q_two_joins 0 True Map.empty (join_def model_ops) (Some 0)) = ''0:join'' \<and>
   step_id (getStep q_two_joins q_two_joins 0 True Map.empty (join_def model_ops) None) = ''0:join'' \<and>
   testID (getStep q_two_joins q_two_joins 0 True Map.empty (join_def model_ops) (Some 0)) =
     ''step-join-0-0'' \<and>
   itemIndex (getStep q_two_joins q_two_joins 0 True Map.empty (join_def model_ops) (Some 0)) = Some 0 \<and>
   step_id (getStep q_two_joins q_two_joins 0 True Map.empty (join_def model_ops) (Some 1)) =
     ''0:join:1'' \<and>
   testID (getStep q_two_joins q_two_joins 0 True Map.empty (join_def model_ops) (Some 1)) =
     ''step-join-0-1''"
proof -
  have n0: "string_of_nat 0 = ''0''" and n1: "string_of_nat (Suc 0) = ''1''"
    by code_simp+
  have t: "def_type (join_def model_ops) = ''join''"
    by (simp add: join_def_def)
  show ?thesis
    using item_zero_has_no_suffix [of q_two_joins q_two_joins 0 True Map.empty "join_def model_ops" 1
        model_ops]
    by (auto simp: n0 n1 t)
qed

subsection \<open>Validity of sort and limit\<close>

lemma raw_sort_limit:
  assumes "s \<in> set (rawSteps ops tq q i isLast openSteps)"
    and "step_type s \<in> {''sort'', ''limit''}"
  shows "valid s = sort_valid ops q None tq (stageIndex s)"
  using assms
  by (auto simp: rawSteps_eq getStep_def Let_def data_def_def join_def_def expression_def_def
      filter_def_def summarize_def_def sort_def_def limit_def_def sort_valid_def limit_valid_def
      simp del: upt_Suc)

text \<open>
  Claim C10. The sort step and the limit step are valid exactly when the stage has data,
  has no aggregation or has a breakout, and has no source query or has a clause. This
  holds for the catalog entries and for the sort and limit instances of a stage. A stage
  with a source query and no clause of its own, as a freshly nested one, has both
  invalid.
\<close>

theorem sort_limit_valid_iff:
  "def_valid (sort_def ops) q item tq si =
     (hasData ops q \<and> (\<not> hasAggregations ops q \<or> hasBreakouts ops q) \<and>
      (sourceQuery ops q = None \<or> hasAnyClauses ops q)) \<and>
   def_valid (limit_def ops) q item tq si =
     (hasData ops q \<and> (\<not> hasAggregations ops q \<or> hasBreakouts ops q) \<and>
      (sourceQuery ops q = None \<or> hasAnyClauses ops q)) \<and>
   (\<forall>s \<in> set (rawSteps ops tq q i isLast openSteps).
      step_type s \<in> {''sort'', ''limit''} \<longrightarrow>
      valid s =
        (hasData ops q \<and> (\<not> hasAggregations ops q \<or> hasBreakouts ops q) \<and>
         (sourceQuery ops q = None \<or> hasAnyClauses ops q))) \<and>
   (sourceQuery ops q \<noteq> None \<and> \<not> hasAnyClauses ops q \<longrightarrow>
      \<not> def_valid (sort_def ops) q item tq si \<and> \<not> def_valid (limit_def ops) q item tq si)"
proof (intro conjI ballI impI)
  fix s assume "s \<in> set (rawSteps ops tq q i isLast openSteps)"
    and "step_type s \<in> {''sort'', ''limit''}"
  then show "valid s =
        (hasData ops q \<and> (\<not> hasAggregations ops q \<or> hasBreakouts ops q) \<and>
         (sourceQuery ops q = None \<or> hasAnyClauses ops q))"
    using raw_sort_limit by (fastforce simp: sort_valid_def)
qed (auto simp: sort_def_def limit_def_def sort_valid_def limit_valid_def)

theorem sort_limit_valid_iff_witness:
  "def_valid (sort_def model_ops) q_filtered None q_filtered (- 1) \<and>
   def_valid (limit_def model_ops) q_filtered None q_filtered (- 1) \<and>
   \<not> def_valid (sort_def model_ops) q_count_limit None q_count_limit (- 1) \<and>
   \<not> def_valid (limit_def model_ops) q_count_limit None q_count_limit (- 1) \<and>
   sourceQuery model_ops (m_nest q_two_joins) \<noteq> None \<and>
   \<not> hasAnyClauses model_ops (m_nest q_two_joins) \<and>
   \<not> def_valid (sort_def model_ops) (m_nest q_two_joins) None q_two_joins (- 1) \<and>
   \<not> def_valid (limit_def model_ops) (m_nest q_two_joins) None q_two_joins (- 1)"
proof -
  have a: "hasData model_ops q_filtered" "\<not> hasAggregations model_ops q_filtered"
    "sourceQuery model_ops q_filtered = None"
    by code_simp+
  have b: "hasAggregations model_ops q_count_limit" "\<not> hasBreakouts model_ops q_count_limit"
    by code_simp+
  have c: "sourceQuery model_ops (m_nest q_two_joins) \<noteq> None"
    "\<not> hasAnyClauses model_ops (m_nest q_two_joins)"
    by code_simp+
  note s1 = sort_limit_valid_iff [of model_ops q_filtered None q_filtered "- 1", THEN conjunct1]
  note l1 = sort_limit_valid_iff [of model_ops q_filtered None q_filtered "- 1",
      THEN conjunct2, THEN conjunct1]
  note s2 = sort_limit_valid_iff [of model_ops q_count_limit None q_count_limit "- 1",
      THEN conjunct1]
  note l2 = sort_limit_valid_iff [of model_ops q_count_limit None q_count_limit "- 1",
      THEN conjunct2, THEN conjunct1]
  note n3 = sort_limit_valid_iff [of model_ops "m_nest q_two_joins" None q_two_joins "- 1",
      THEN conjunct2, THEN conjunct2, THEN conjunct2]
  show ?thesis
    using a b c n3 by (simp add: s1 l1 s2 l2)
qed

subsection \<open>Join instances\<close>





lemma getStep_fields [simp]:
  "step_type (getStep tq q i isLast openSteps STEP item) = def_type STEP"
  "itemIndex (getStep tq q i isLast openSteps STEP item) = item"
  "step_id (getStep tq q i isLast openSteps STEP item) = getId i STEP item"
  "stageIndex (getStep tq q i isLast openSteps STEP item) =
     getMLv2StageIndex i (def_type STEP) isLast"
  "valid (getStep tq q i isLast openSteps STEP item) =
     def_valid STEP q item tq (getMLv2StageIndex i (def_type STEP) isLast)"
  "active (getStep tq q i isLast openSteps STEP item) =
     def_active STEP q item tq (getMLv2StageIndex i (def_type STEP) isLast)"
  "visible (getStep tq q i isLast openSteps STEP item) =
     (def_valid STEP q item tq (getMLv2StageIndex i (def_type STEP) isLast) \<and>
      (def_active STEP q item tq (getMLv2StageIndex i (def_type STEP) isLast) \<or>
       truthy (openSteps (getId i STEP item))))"
  "query (getStep tq q i isLast openSteps STEP item) = q"
  "clean (getStep tq q i isLast openSteps STEP item) =
     (\<lambda>query. def_clean STEP query item tq (getMLv2StageIndex i (def_type STEP) isLast))"
  "revert (getStep tq q i isLast openSteps STEP item) =
     (case def_revert STEP of
        None \<Rightarrow> None
      | Some r \<Rightarrow> Some (\<lambda>query. r query item tq (getMLv2StageIndex i (def_type STEP) isLast)))"
  by (simp_all add: getStep_def Let_def)

lemma def_types [simp]:
  "def_type (data_def ops) = ''data''" "def_type (join_def ops) = ''join''"
  "def_type (expression_def ops) = ''expression''" "def_type (filter_def ops) = ''filter''"
  "def_type (summarize_def ops) = ''summarize''" "def_type (sort_def ops) = ''sort''"
  "def_type (limit_def ops) = ''limit''"
  by (simp_all add: data_def_def join_def_def expression_def_def filter_def_def
      summarize_def_def sort_def_def limit_def_def)

lemma join_def_fields [simp]:
  "def_valid (join_def ops) = join_valid ops" "def_active (join_def ops) = join_active ops"
  "def_clean (join_def ops) = join_clean_step ops"
  "def_revert (join_def ops) = Some (join_revert ops)"
  by (simp_all add: join_def_def)







subsection \<open>Previews\<close>

lemma sweep_inactive_preview:
  "s \<in> set (fst (sweep steps (ks, pq, acts))) \<Longrightarrow>
   s \<in> set ks \<or> active s \<or> previewQuery s = None"
proof (induction steps)
  case Nil
  then show ?case by simp
next
  case (Cons x steps)
  show ?case
  proof (cases "s \<in> set (fst (sweep steps (ks, pq, acts)))")
    case True
    then show ?thesis by (rule Cons.IH)
  next
    case False
    with Cons.prems have "visible x"
      and "s = x\<lparr>previewQuery := (if active x then fst (snd (sweep steps (ks, pq, acts))) else None),
                   actions := snd (snd (sweep steps (ks, pq, acts)))\<rparr>"
      by (auto simp: visit_kept split: if_splits)
    then show ?thesis by simp
  qed
qed

lemma add_stage_previews:
  "map previewQuery (add_stage ops tq n openSteps allSteps (i, q)) =
     map previewQuery allSteps @
     map previewQuery (fst (getStageSteps ops tq q i (Suc i = n) openSteps))"
proof -
  have last: "int i = int n - 1 \<longleftrightarrow> Suc i = n"
    by auto
  have upd: "map previewQuery (allSteps[k := (allSteps ! k)\<lparr>actions := a\<rparr>]) = map previewQuery allSteps"
    for k a
  proof (cases "k < length allSteps")
    case True
    have "previewQuery ((allSteps ! k)\<lparr>actions := a\<rparr>) = map previewQuery allSteps ! k"
      using True by simp
    then show ?thesis
      by (simp add: map_update)
  next
    case False
    then have "allSteps[k := (allSteps ! k)\<lparr>actions := a\<rparr>] = allSteps"
      by (intro list_update_beyond) simp
    then show ?thesis by simp
  qed
  show ?thesis
    by (simp add: add_stage_def last upd Let_def case_prod_beta)
qed

lemma foldl_add_stage_previews:
  "map previewQuery (foldl (add_stage ops tq n openSteps) acc es) =
     map previewQuery acc @
     concat (map (\<lambda>(i, q). map previewQuery (fst (getStageSteps ops tq q i (Suc i = n) openSteps))) es)"
proof (induction es arbitrary: acc)
  case Nil
  show ?case by simp
next
  case (Cons e es)
  obtain i q where e: "e = (i, q)" by (cases e) auto
  show ?case
    by (simp add: Cons.IH e add_stage_previews)
qed

lemma getStageSteps_previews:
  "map previewQuery (fst (getStageSteps ops tq q i isLast openSteps)) =
     visible_previews (rawSteps ops tq q i isLast openSteps) q"
  using sweep_kept_previews [of "rawSteps ops tq q i isLast openSteps" "[]" q "[]"]
  by (simp add: fst_getStageSteps)

lemma getQuestionSteps_fold:
  "isStructured qn \<Longrightarrow>
   getQuestionSteps ops qn openSteps =
     foldl (add_stage ops (getMLv2Query ops (question_query qn))
              (length (question_stages ops qn)) openSteps) []
       (zip [0 ..< length (question_stages ops qn)] (question_stages ops qn))"
  by (simp add: getQuestionSteps_def question_stages_def Let_def)

text \<open>
  Claim C3. The steps \<open>getStageSteps\<close> returns are the visible instances of the stage, in
  catalog order, and their previews are those of \<open>visible_previews\<close>: nothing for an
  inactive instance (one that is visible only because it is forced open), and for an
  active one the stage query reverted by every later instance that has a revert, the
  last one first. A revert that returns no query leaves no query to the earlier
  previews. The previews of the steps \<open>getQuestionSteps\<close> returns are those of its
  stages, one stage after the other.
\<close>

theorem previews_of_visible_steps:
  "map unannotated (fst (getStageSteps ops tq q i isLast openSteps)) =
     filter visible (rawSteps ops tq q i isLast openSteps) \<and>
   map previewQuery (fst (getStageSteps ops tq q i isLast openSteps)) =
     visible_previews (rawSteps ops tq q i isLast openSteps) q \<and>
   (\<forall>s \<in> set (fst (getStageSteps ops tq q i isLast openSteps)).
      \<not> active s \<longrightarrow> previewQuery s = None) \<and>
   (isStructured qn \<longrightarrow>
    map previewQuery (getQuestionSteps ops qn openSteps) =
      concat (map (\<lambda>k. visible_previews (question_rawSteps ops qn openSteps k)
                          (question_stages ops qn ! k))
               [0 ..< length (question_stages ops qn)]))"
proof (intro conjI ballI impI)
  show "map unannotated (fst (getStageSteps ops tq q i isLast openSteps)) =
     filter visible (rawSteps ops tq q i isLast openSteps)"
    by (rule getStageSteps_unannotated)
next
  show "map previewQuery (fst (getStageSteps ops tq q i isLast openSteps)) =
     visible_previews (rawSteps ops tq q i isLast openSteps) q"
    by (rule getStageSteps_previews)
next
  fix s assume "s \<in> set (fst (getStageSteps ops tq q i isLast openSteps))" and "\<not> active s"
  then show "previewQuery s = None"
    using sweep_inactive_preview [of s "rawSteps ops tq q i isLast openSteps" "[]" "Some q" "[]"]
    by (simp add: fst_getStageSteps)
next
  assume "isStructured qn"
  then show "map previewQuery (getQuestionSteps ops qn openSteps) =
      concat (map (\<lambda>k. visible_previews (question_rawSteps ops qn openSteps k)
                          (question_stages ops qn ! k))
               [0 ..< length (question_stages ops qn)])"
    by (simp add: getQuestionSteps_fold foldl_add_stage_previews zip_upt_nth o_def
        getStageSteps_previews question_rawSteps_def)
qed

theorem previews_of_visible_steps_witness:
  "map step_id (fst (getStageSteps model_ops q_filtered q_filtered 0 True [''0:expression'' \<mapsto> True])) =
     [''0:data'', ''0:expression'', ''0:filter'', ''0:sort'', ''0:limit''] \<and>
   map active (fst (getStageSteps model_ops q_filtered q_filtered 0 True [''0:expression'' \<mapsto> True])) =
     [True, False, True, True, True] \<and>
   map previewQuery
     (fst (getStageSteps model_ops q_filtered q_filtered 0 True [''0:expression'' \<mapsto> True])) =
     [Some (on_db [] plain_stage),
      None,
      Some (on_db [] (plain_stage\<lparr>filters := [Clause 1 True]\<rparr>)),
      Some (on_db [] (plain_stage\<lparr>filters := [Clause 1 True], sorts := [Clause 2 True]\<rparr>)),
      Some q_filtered] \<and>
   list_all (\<lambda>s. active s \<or> previewQuery s = None)
     (fst (getStageSteps model_ops q_filtered q_filtered 0 True [''0:expression'' \<mapsto> True]))"
proof -
  have ids: "map step_id (filter visible
        (rawSteps model_ops q_filtered q_filtered 0 True [''0:expression'' \<mapsto> True])) =
      [''0:data'', ''0:expression'', ''0:filter'', ''0:sort'', ''0:limit'']"
    by code_simp
  have act: "map active (filter visible
        (rawSteps model_ops q_filtered q_filtered 0 True [''0:expression'' \<mapsto> True])) =
      [True, False, True, True, True]"
    by code_simp
  have pre: "visible_previews
        (rawSteps model_ops q_filtered q_filtered 0 True [''0:expression'' \<mapsto> True]) q_filtered =
      [Some (on_db [] plain_stage),
       None,
       Some (on_db [] (plain_stage\<lparr>filters := [Clause 1 True]\<rparr>)),
       Some (on_db [] (plain_stage\<lparr>filters := [Clause 1 True], sorts := [Clause 2 True]\<rparr>)),
       Some q_filtered]"
    by code_simp
  note t = previews_of_visible_steps [of model_ops q_filtered q_filtered 0 True
      "[''0:expression'' \<mapsto> True]" "as_question q_filtered"]
  note p = t [THEN conjunct2, THEN conjunct1]
  note b = t [THEN conjunct2, THEN conjunct2, THEN conjunct1]
  have u: "map unannotated
        (fst (getStageSteps model_ops q_filtered q_filtered 0 True [''0:expression'' \<mapsto> True])) =
      filter visible (rawSteps model_ops q_filtered q_filtered 0 True [''0:expression'' \<mapsto> True])"
    using t by (rule conjunct1)
  have "map step_id (map unannotated
        (fst (getStageSteps model_ops q_filtered q_filtered 0 True [''0:expression'' \<mapsto> True]))) =
      [''0:data'', ''0:expression'', ''0:filter'', ''0:sort'', ''0:limit'']"
    by (simp only: u ids)
  then have 1: "map step_id
        (fst (getStageSteps model_ops q_filtered q_filtered 0 True [''0:expression'' \<mapsto> True])) =
      [''0:data'', ''0:expression'', ''0:filter'', ''0:sort'', ''0:limit'']"
    by (simp add: o_def)
  have "map active (map unannotated
        (fst (getStageSteps model_ops q_filtered q_filtered 0 True [''0:expression'' \<mapsto> True]))) =
      [True, False, True, True, True]"
    by (simp only: u act)
  then have 2: "map active
        (fst (getStageSteps model_ops q_filtered q_filtered 0 True [''0:expression'' \<mapsto> True])) =
      [True, False, True, True, True]"
    by (simp add: o_def)
  have 3: "map previewQuery
     (fst (getStageSteps model_ops q_filtered q_filtered 0 True [''0:expression'' \<mapsto> True])) =
     [Some (on_db [] plain_stage),
      None,
      Some (on_db [] (plain_stage\<lparr>filters := [Clause 1 True]\<rparr>)),
      Some (on_db [] (plain_stage\<lparr>filters := [Clause 1 True], sorts := [Clause 2 True]\<rparr>)),
      Some q_filtered]"
    by (simp only: p pre)
  have 4: "list_all (\<lambda>s. active s \<or> previewQuery s = None)
     (fst (getStageSteps model_ops q_filtered q_filtered 0 True [''0:expression'' \<mapsto> True]))"
    using b by (auto simp: list_all_iff)
  from 1 2 3 4 show ?thesis by (intro conjI)
qed

subsection \<open>Actions\<close>

lemma catalog_fields [simp]:
  "def_valid (data_def ops) = data_valid ops"
  "def_active (data_def ops) = (\<lambda>query index tq si. True)"
  "def_revert (data_def ops) = None"
  "def_valid (expression_def ops) = expression_valid ops"
  "def_active (expression_def ops) = (\<lambda>query index tq si. hasExpressions ops query)"
  "def_valid (filter_def ops) = (\<lambda>query index tq si. hasData ops query)"
  "def_active (filter_def ops) = (\<lambda>query index tq si. hasFilters ops query)"
  "def_valid (summarize_def ops) = (\<lambda>query index tq si. hasData ops query)"
  "def_active (summarize_def ops) =
     (\<lambda>query index tq si. hasAggregations ops query \<or> hasBreakouts ops query)"
  "def_valid (sort_def ops) = sort_valid ops"
  "def_active (sort_def ops) = (\<lambda>query index tq si. hasSorts ops query)"
  "def_valid (limit_def ops) = limit_valid ops"
  "def_active (limit_def ops) =
     (\<lambda>legacyQuery itemIndex query stageIndex. Lib_hasLimit ops query stageIndex)"
  by (simp_all add: data_def_def expression_def_def filter_def_def summarize_def_def sort_def_def
      limit_def_def)

lemma getStageSteps_actions:
  "map actions (fst (getStageSteps ops tq q i isLast openSteps)) =
     visible_actions (rawSteps ops tq q i isLast openSteps)"
  using sweep_kept_actions [of "rawSteps ops tq q i isLast openSteps" "[]" "Some q"]
  by (simp add: fst_getStageSteps)

lemma returned_types:
  "map step_type (fst (getStageSteps ops tq q i isLast openSteps)) =
     map step_type (filter visible (rawSteps ops tq q i isLast openSteps))"
proof -
  have "map step_type (map unannotated (fst (getStageSteps ops tq q i isLast openSteps))) =
        map step_type (filter visible (rawSteps ops tq q i isLast openSteps))"
    by (simp only: getStageSteps_unannotated)
  then show ?thesis by (simp add: o_def)
qed

text \<open>
  Claim C6, as the code has it. For a stage query with no source query, with data, and
  with no join, expression, filter, aggregation, breakout, sort or limit, and with no
  step forced open, \<open>getStageSteps\<close> returns exactly one step, of type data, and no
  leftover action. That step carries the actions of the hidden steps that are valid:
  filter, summarize, sort and limit always, join and expression when the database
  supports them.
\<close>

theorem plain_query_one_data_step:
  assumes "sourceQuery ops q = None" and "hasData ops q" and "joins ops q = []"
    and "\<not> hasExpressions ops q" and "\<not> hasFilters ops q" and "\<not> hasAggregations ops q"
    and "\<not> hasBreakouts ops q" and "\<not> hasSorts ops q"
    and "\<not> Lib_hasLimit ops tq (getMLv2StageIndex i ''limit'' isLast)"
    and "\<forall>sid. \<not> truthy (openSteps sid)"
  shows
    "map step_type (fst (getStageSteps ops tq q i isLast openSteps)) = [''data''] \<and>
     snd (getStageSteps ops tq q i isLast openSteps) = [] \<and>
     map (\<lambda>s. map action_type (actions s)) (fst (getStageSteps ops tq q i isLast openSteps)) =
       [(if join_valid ops q (Some 0) tq (int i) then [''join''] else []) @
        (if expression_valid ops q None tq (int i) then [''expression''] else []) @
        [''filter'', ''summarize'', ''sort'', ''limit'']]"
proof -
  have raw: "rawSteps ops tq q i isLast openSteps =
     [getStep tq q i isLast openSteps (data_def ops) None,
      getStep tq q i isLast openSteps (join_def ops) (Some 0),
      getStep tq q i isLast openSteps (expression_def ops) None,
      getStep tq q i isLast openSteps (filter_def ops) None,
      getStep tq q i isLast openSteps (summarize_def ops) None,
      getStep tq q i isLast openSteps (sort_def ops) None,
      getStep tq q i isLast openSteps (limit_def ops) None]"
    by (simp add: rawSteps_eq assms(3))
  have types: "map step_type (filter visible (rawSteps ops tq q i isLast openSteps)) = [''data'']"
    using assms by (simp add: raw data_valid_def join_active_def)
  have lead: "leading_actions (rawSteps ops tq q i isLast openSteps) = []"
    using assms by (simp add: raw leading_actions_def data_valid_def)
  have acts: "map (map action_type) (visible_actions (rawSteps ops tq q i isLast openSteps)) =
       [(if join_valid ops q (Some 0) tq (int i) then [''join''] else []) @
        (if expression_valid ops q None tq (int i) then [''expression''] else []) @
        [''filter'', ''summarize'', ''sort'', ''limit'']]"
    using assms
    by (simp add: raw leading_actions_def data_valid_def join_active_def sort_valid_def
        limit_valid_def open_action_def join_valid_def expression_valid_def)
  have "map (\<lambda>s. map action_type (actions s)) (fst (getStageSteps ops tq q i isLast openSteps)) =
        map (map action_type) (map actions (fst (getStageSteps ops tq q i isLast openSteps)))"
    by (simp add: o_def)
  then show ?thesis
    by (simp only: returned_types types snd_getStageSteps lead getStageSteps_actions acts simp_thms)
qed

theorem plain_query_one_data_step_witness:
  "map step_type (fst (getStageSteps model_ops q_plain q_plain 0 True Map.empty)) = [''data''] \<and>
   snd (getStageSteps model_ops q_plain q_plain 0 True Map.empty) = [] \<and>
   map (\<lambda>s. map action_type (actions s))
     (fst (getStageSteps model_ops q_plain q_plain 0 True Map.empty)) =
     [[''join'', ''expression'', ''filter'', ''summarize'', ''sort'', ''limit'']] \<and>
   map step_type (getQuestionSteps model_ops (as_question q_plain) Map.empty) = [''data'']"
proof -
  have whole: "map step_type (getQuestionSteps model_ops (as_question q_plain) Map.empty) = [''data'']"
    by code_simp
  have h: "sourceQuery model_ops q_plain = None" "hasData model_ops q_plain"
    "joins model_ops q_plain = []" "\<not> hasExpressions model_ops q_plain"
    "\<not> hasFilters model_ops q_plain" "\<not> hasAggregations model_ops q_plain"
    "\<not> hasBreakouts model_ops q_plain" "\<not> hasSorts model_ops q_plain"
    "\<not> Lib_hasLimit model_ops q_plain (getMLv2StageIndex 0 ''limit'' True)"
    by code_simp+
  have o: "\<forall>sid. \<not> truthy (Map.empty sid)"
    by (simp add: truthy_def)
  have v: "join_valid model_ops q_plain (Some 0) q_plain (int 0)"
    "expression_valid model_ops q_plain None q_plain (int 0)"
    by code_simp+
  show ?thesis
    using plain_query_one_data_step [OF h o] v whole by simp
qed

text \<open>
  A query with no data has the data step alone and nothing to add: no other step is
  valid.
\<close>

lemma no_data_no_actions:
  assumes "sourceQuery ops q = None" and "\<not> hasData ops q" and "joins ops q = []"
    and "\<forall>sid. \<not> truthy (openSteps sid)"
  shows
    "map step_type (fst (getStageSteps ops tq q i isLast openSteps)) = [''data''] \<and>
     snd (getStageSteps ops tq q i isLast openSteps) = [] \<and>
     map actions (fst (getStageSteps ops tq q i isLast openSteps)) = [[]]"
proof -
  have raw: "rawSteps ops tq q i isLast openSteps =
     [getStep tq q i isLast openSteps (data_def ops) None,
      getStep tq q i isLast openSteps (join_def ops) (Some 0),
      getStep tq q i isLast openSteps (expression_def ops) None,
      getStep tq q i isLast openSteps (filter_def ops) None,
      getStep tq q i isLast openSteps (summarize_def ops) None,
      getStep tq q i isLast openSteps (sort_def ops) None,
      getStep tq q i isLast openSteps (limit_def ops) None]"
    by (simp add: rawSteps_eq assms(3))
  have types: "map step_type (filter visible (rawSteps ops tq q i isLast openSteps)) = [''data'']"
    using assms
    by (simp add: raw data_valid_def join_valid_def expression_valid_def sort_valid_def
        limit_valid_def)
  have lead: "leading_actions (rawSteps ops tq q i isLast openSteps) = []"
    using assms by (simp add: raw leading_actions_def data_valid_def)
  have acts: "visible_actions (rawSteps ops tq q i isLast openSteps) = [[]]"
    using assms
    by (simp add: raw leading_actions_def data_valid_def join_valid_def expression_valid_def
        sort_valid_def limit_valid_def)
  show ?thesis
    by (simp only: returned_types types snd_getStageSteps lead getStageSteps_actions acts simp_thms)
qed

text \<open>
  Claim C6 as it is worded fails: the data step of such a query does not carry zero
  actions.
\<close>

theorem plain_query_data_step_has_actions:
  "sourceQuery model_ops q_plain = None \<and> hasData model_ops q_plain \<and>
   joins model_ops q_plain = [] \<and> \<not> hasExpressions model_ops q_plain \<and>
   \<not> hasFilters model_ops q_plain \<and> \<not> hasAggregations model_ops q_plain \<and>
   \<not> hasBreakouts model_ops q_plain \<and> \<not> hasSorts model_ops q_plain \<and>
   \<not> Lib_hasLimit model_ops q_plain (- 1) \<and>
   map step_type (fst (getStageSteps model_ops q_plain q_plain 0 True Map.empty)) = [''data''] \<and>
   map (\<lambda>s. length (actions s)) (fst (getStageSteps model_ops q_plain q_plain 0 True Map.empty)) = [6] \<and>
   \<not> (\<exists>s. fst (getStageSteps model_ops q_plain q_plain 0 True Map.empty) = [s] \<and>
           step_type s = ''data'' \<and> actions s = [])"
proof -
  have h: "sourceQuery model_ops q_plain = None \<and> hasData model_ops q_plain \<and>
   joins model_ops q_plain = [] \<and> \<not> hasExpressions model_ops q_plain \<and>
   \<not> hasFilters model_ops q_plain \<and> \<not> hasAggregations model_ops q_plain \<and>
   \<not> hasBreakouts model_ops q_plain \<and> \<not> hasSorts model_ops q_plain \<and>
   \<not> Lib_hasLimit model_ops q_plain (- 1)"
    by code_simp
  have t: "map step_type (fst (getStageSteps model_ops q_plain q_plain 0 True Map.empty)) = [''data'']"
    by code_simp
  have n: "map (\<lambda>s. length (actions s))
      (fst (getStageSteps model_ops q_plain q_plain 0 True Map.empty)) = [6]"
    by code_simp
  have "\<not> (\<exists>s. fst (getStageSteps model_ops q_plain q_plain 0 True Map.empty) = [s] \<and>
           step_type s = ''data'' \<and> actions s = [])"
  proof
    assume "\<exists>s. fst (getStageSteps model_ops q_plain q_plain 0 True Map.empty) = [s] \<and>
           step_type s = ''data'' \<and> actions s = []"
    then obtain s where "fst (getStageSteps model_ops q_plain q_plain 0 True Map.empty) = [s]"
      and "actions s = []" by blast
    with n show False by simp
  qed
  with h t n show ?thesis by (intro conjI) simp_all
qed

subsection \<open>Cleaning a join\<close>

lemma js_index_nth: "k < length xs \<Longrightarrow> js_index xs (int k) = Some (xs ! k)"
  by (simp add: js_index_def)

lemma js_index_beyond: "\<not> k < length xs \<Longrightarrow> js_index xs (int k) = None"
  by (simp add: js_index_def)

text \<open>
  Claim C8, as the code has it. The clean of the join step, at an item index that holds
  a join which is invalid, has no gaps, and is still invalid once cleaned, returns the
  query with that join removed. A join that is valid or has gaps stays as it is, as
  does the query when the index holds no join; a join whose cleaned form is valid is
  replaced by that form. Join is the only catalog entry whose clean calls
  \<^verbatim>\<open>removeJoin\<close> or \<^verbatim>\<open>updateJoin\<close>: the clean of every other entry is the same
  function whatever those two methods do. Data and limit clean to the query itself;
  expression, filter, summarize and sort return what the clean methods of the query
  return, and those may drop clauses.
\<close>

theorem join_clean_cases:
  "(k < length (joins ops q) \<and> \<not> join_isValid ops (joins ops q ! k) \<and>
    \<not> join_hasGaps ops (joins ops q ! k) \<and>
    \<not> join_isValid ops (join_clean ops (joins ops q ! k)) \<longrightarrow>
      def_clean (join_def ops) q (Some k) tq si = removeJoin ops q (Some k)) \<and>
   (k < length (joins ops q) \<and> \<not> join_isValid ops (joins ops q ! k) \<and>
    \<not> join_hasGaps ops (joins ops q ! k) \<and>
    join_isValid ops (join_clean ops (joins ops q ! k)) \<longrightarrow>
      def_clean (join_def ops) q (Some k) tq si =
        updateJoin ops q (Some k) (join_clean ops (joins ops q ! k))) \<and>
   (k < length (joins ops q) \<and>
    (join_isValid ops (joins ops q ! k) \<or> join_hasGaps ops (joins ops q ! k)) \<longrightarrow>
      def_clean (join_def ops) q (Some k) tq si = q) \<and>
   (\<not> k < length (joins ops q) \<longrightarrow> def_clean (join_def ops) q (Some k) tq si = q) \<and>
   def_clean (join_def ops) q None tq si = q \<and>
   clean (getStep tq0 q0 i isLast openSteps (join_def ops) (Some k)) q =
     def_clean (join_def ops) q (Some k) tq0 (int i) \<and>
   def_clean (data_def ops) q item tq si = q \<and>
   def_clean (limit_def ops) q item tq si = q \<and>
   def_clean (expression_def ops) q item tq si = cleanExpressions ops q \<and>
   def_clean (filter_def ops) q item tq si = cleanFilters ops q \<and>
   def_clean (summarize_def ops) q item tq si = cleanAggregations ops (cleanBreakouts ops q) \<and>
   def_clean (sort_def ops) q item tq si = cleanSorts ops q \<and>
   map def_clean (remove1 (join_def (ops\<lparr>removeJoin := r, updateJoin := u\<rparr>))
                   (STEPS (ops\<lparr>removeJoin := r, updateJoin := u\<rparr>))) =
     map def_clean (remove1 (join_def ops) (STEPS ops))"
proof -
  have others: "map def_clean (remove1 (join_def (ops\<lparr>removeJoin := r, updateJoin := u\<rparr>))
                   (STEPS (ops\<lparr>removeJoin := r, updateJoin := u\<rparr>))) =
     map def_clean (remove1 (join_def ops) (STEPS ops))"
    by (simp add: STEPS_def data_def_def join_def_def expression_def_def filter_def_def
        summarize_def_def sort_def_def limit_def_def)
  show ?thesis
    using others
    by (simp add: join_clean_step_def js_index_nth js_index_beyond Let_def data_def_def
        limit_def_def expression_def_def filter_def_def summarize_def_def sort_def_def)
qed

theorem join_clean_cases_witness:
  "\<not> join_isValid model_ops (joins model_ops q_bad_join ! 0) \<and>
   \<not> join_hasGaps model_ops (joins model_ops q_bad_join ! 0) \<and>
   \<not> join_isValid model_ops (join_clean model_ops (joins model_ops q_bad_join ! 0)) \<and>
   def_clean (join_def model_ops) q_bad_join (Some 0) q_bad_join 0 = q_plain \<and>
   removeJoin model_ops q_bad_join (Some 0) = q_plain"
proof -
  have h: "0 < length (joins model_ops q_bad_join)"
    "\<not> join_isValid model_ops (joins model_ops q_bad_join ! 0)"
    "\<not> join_hasGaps model_ops (joins model_ops q_bad_join ! 0)"
    "\<not> join_isValid model_ops (join_clean model_ops (joins model_ops q_bad_join ! 0))"
    by code_simp+
  have r: "removeJoin model_ops q_bad_join (Some 0) = q_plain"
    by code_simp
  note t = join_clean_cases [of 0 model_ops q_bad_join q_bad_join 0, THEN conjunct1]
  show ?thesis
    using h r t by simp
qed

text \<open>
  Claim C8 as it is worded fails twice. An invalid join that cannot be repaired but has
  gaps is left in place by the clean of the join step. And join is not the only entry
  whose clean deletes a clause: in the model of the query, where \<^verbatim>\<open>cleanFilters\<close> drops
  the filters that cannot be kept, the clean of the filter step deletes the filter of
  a query.
\<close>

theorem gaps_kept_and_filter_dropped:
  "joins model_ops q_gap_join = [CJoin False True False] \<and>
   \<not> join_isValid model_ops (CJoin False True False) \<and>
   \<not> join_isValid model_ops (join_clean model_ops (CJoin False True False)) \<and>
   def_clean (join_def model_ops) q_gap_join (Some 0) q_gap_join 0 = q_gap_join \<and>
   def_clean (join_def model_ops) q_gap_join (Some 0) q_gap_join 0 \<noteq>
     removeJoin model_ops q_gap_join (Some 0) \<and>
   filters (current q_bad_filter) = [Clause 1 False] \<and>
   filters (current (def_clean (filter_def model_ops) q_bad_filter None q_bad_filter 0)) = [] \<and>
   def_clean (filter_def model_ops) q_bad_filter None q_bad_filter 0 = q_plain"
  by code_simp

subsection \<open>The cascade of an update\<close>

text \<open>
  The walk over two join steps of one stage, for any query collaborator: when the join
  at index 0 is invalid, complete and beyond repair, the walk removes it and then
  cleans item 1 of what is left. If the removal left a single join, the step with item
  index 1 finds none at index 1, so that join is never looked at.
\<close>

lemma walk_skips_shifted_join:
  assumes "joins ops q = j0 # js"
    and "\<not> join_isValid ops j0" and "\<not> join_hasGaps ops j0"
    and "\<not> join_isValid ops (join_clean ops j0)"
    and "joins ops (removeJoin ops q (Some 0)) = [j1]"
    and "stageIndex prev = int i"
  shows "clean_walk ops prev
           [getStep tq q0 i isLast openSteps (join_def ops) (Some 0),
            getStep tq q0 i isLast openSteps (join_def ops) (Some 1)] q =
         removeJoin ops q (Some 0)"
  using assms
  by (simp add: getMLv2StageIndex_def MLV2_STEPS_def join_clean_step_def js_index_def Let_def)

text \<open>
  Claim C1 fails on the code. The steps are those of a query with two sound joins; the
  data step is updated with a query whose two joins are both invalid, complete and
  beyond repair. The walk removes the first join; the second one moves to index 0, the
  clean of the step with item index 1 finds no join at index 1, and an invalid join
  is left. A second walk from the result removes it, so the second walk changes
  what the first one returned.
\<close>

theorem cascade_twice_differs:
  "map step_id (getQuestionSteps model_ops (as_question q_two_joins) Map.empty) =
     [''0:data'', ''0:join'', ''0:join:1''] \<and>
   update model_ops (getQuestionSteps model_ops (as_question q_two_joins) Map.empty) 0
     q_broken_joins = q_bad_join \<and>
   cascade model_ops (getQuestionSteps model_ops (as_question q_two_joins) Map.empty) 0
     q_broken_joins = q_bad_join \<and>
   cascade model_ops (getQuestionSteps model_ops (as_question q_two_joins) Map.empty) 0
     (cascade model_ops (getQuestionSteps model_ops (as_question q_two_joins) Map.empty) 0
        q_broken_joins) = q_plain \<and>
   q_plain \<noteq> q_bad_join"
  by code_simp

subsection \<open>Reverting a whole stage\<close>

lemma revert_chain_Nil [simp]: "revert_chain [] q = Some q"
  by (simp add: revert_chain_def)

lemma revert_chain_Cons: "revert_chain (s # xs) q = apply_revert s (revert_chain xs q)"
  by (simp add: revert_chain_def)

lemma apply_revert_None [simp]: "apply_revert s None = None"
  by (simp add: apply_revert_def split: option.splits)

lemma foldr_apply_revert_None [simp]: "foldr apply_revert xs None = None"
  by (induction xs) simp_all

lemma revert_chain_append:
  "revert_chain (xs @ ys) q = Option.bind (revert_chain ys q) (revert_chain xs)"
  by (cases "foldr apply_revert ys (Some q)") (simp_all add: revert_chain_def)

lemma revert_chain_unannotated: "revert_chain (map unannotated xs) q = revert_chain xs q"
  by (induction xs) (simp_all add: revert_chain_Cons apply_revert_def)

lemma revert_chain_returned:
  "revert_chain (fst (getStageSteps ops tq q i isLast openSteps)) q' =
     revert_chain (filter visible (rawSteps ops tq q i isLast openSteps)) q'"
  using revert_chain_unannotated [of "fst (getStageSteps ops tq q i isLast openSteps)" q']
  by (simp only: getStageSteps_unannotated)

text \<open>Reverting with one step.\<close>

lemma revert_chain_single:
  "revert_chain [s] q = (case revert s of None \<Rightarrow> Some q | Some r \<Rightarrow> r q)"
  by (simp add: revert_chain_Cons apply_revert_def split: option.splits)

subsection \<open>The model: a stage and the query above it\<close>

lemma model_fields [simp]:
  "sourceQuery model_ops = m_sourceQuery" "database model_ops = sq_db"
  "hasFeature model_ops = (\<lambda>db name. name \<in> set db)"
  "supportsExpressions model_ops = (\<lambda>db. ''expressions'' \<in> set db)"
  "hasData model_ops = m_hasData" "joins model_ops = (\<lambda>q. stage_joins (current q))"
  "removeJoin model_ops = m_removeJoin" "updateJoin model_ops = m_updateJoin"
  "join_isValid model_ops = cj_valid" "join_hasGaps model_ops = cj_gaps"
  "join_clean model_ops = m_join_clean"
  "hasExpressions model_ops = (\<lambda>q. expressions (current q) \<noteq> [])"
  "clearExpressions model_ops = m_clearExpressions"
  "hasFilters model_ops = (\<lambda>q. filters (current q) \<noteq> [])"
  "clearFilters model_ops = m_clearFilters"
  "hasAggregations model_ops = (\<lambda>q. aggregations (current q) \<noteq> [])"
  "hasBreakouts model_ops = (\<lambda>q. breakouts (current q) \<noteq> [])"
  "clearBreakouts model_ops = m_clearBreakouts"
  "clearAggregations model_ops = m_clearAggregations"
  "hasSorts model_ops = (\<lambda>q. sorts (current q) \<noteq> [])"
  "clearSort model_ops = m_clearSort"
  "hasAnyClauses model_ops = (\<lambda>q. stage_has_clauses (current q))"
  "Lib_hasLimit model_ops = m_hasLimit" "Lib_limit model_ops = m_limit"
  "Lib_toLegacyQuery model_ops = (\<lambda>t. t)" "setDatasetQuery model_ops = (\<lambda>q d. d)"
  "queries model_ops = m_queries"
  by (simp_all add: model_ops_def)

lemma length_stages: "length (stages t) = Suc (length (below t))"
  by (simp add: stages_def)

lemma stage_view_fields [simp]:
  "sq_db (stage_view t i) = sq_db t" "below (stage_view t i) = take i (stages t)"
  "current (stage_view t i) = stages t ! i"
  by (simp_all add: stage_view_def)

lemma stages_m_limit:
  assumes "i < length (stages t)" and "lib_stage_number t si = int i"
  shows "stages (m_limit t si v) = (stages t)[i := (stages t ! i)\<lparr>limit := v\<rparr>]"
    and "sq_db (m_limit t si v) = sq_db t"
proof -
  show "sq_db (m_limit t si v) = sq_db t"
    by (simp add: m_limit_def Let_def)
  show "stages (m_limit t si v) = (stages t)[i := (stages t ! i)\<lparr>limit := v\<rparr>]"
  proof (cases "i < length (below t)")
    case True
    then show ?thesis
      using assms(2) by (simp add: m_limit_def Let_def stages_def list_update_append nth_append)
  next
    case False
    with assms(1) have "i = length (below t)" by (simp add: length_stages)
    then show ?thesis
      using assms(2) by (simp add: m_limit_def Let_def stages_def list_update_append)
  qed
qed

lemma stage_number:
  assumes "i < length (stages t)" and "isLast \<longrightarrow> Suc i = length (stages t)"
  shows "lib_stage_number t (getMLv2StageIndex i ''limit'' isLast) = int i"
  using assms by (auto simp: lib_stage_number_def getMLv2StageIndex_def MLV2_STEPS_def)

lemma limit_revert_model:
  assumes "i < length (stages t)" and "isLast \<longrightarrow> Suc i = length (stages t)"
  shows "limit_revert model_ops q' item t (getMLv2StageIndex i ''limit'' isLast) =
         Some ((stage_view t i)\<lparr>current := (current (stage_view t i))\<lparr>limit := None\<rparr>\<rparr>)"
proof -
  let ?si = "getMLv2StageIndex i ''limit'' isLast"
  let ?t' = "m_limit t ?si None"
  have st: "stages ?t' = (stages t)[i := (stages t ! i)\<lparr>limit := None\<rparr>]" and db: "sq_db ?t' = sq_db t"
    using stages_m_limit [OF assms(1) stage_number [OF assms]] by simp_all
  have len: "length (stages ?t') = length (stages t)"
    by (simp only: st length_list_update)
  have si: "(?si = - 1 \<and> Suc i = length (stages t)) \<or> (?si = int i \<and> ?si \<noteq> - 1)"
    using assms(2) by (auto simp: getMLv2StageIndex_def MLV2_STEPS_def)
  have lq: "length (m_queries ?t') = length (stages t)"
    by (simp add: m_queries_def len)
  have safe: "(if ?si = - 1 then int (length (m_queries ?t')) - 1 else ?si) = int i"
    using si by (auto simp only: lq split: if_splits)
  have "limit_revert model_ops q' item t ?si = js_index (m_queries ?t') (int i)"
    using safe by (simp add: limit_revert_def Let_def)
  also have "\<dots> = Some (stage_view ?t' i)"
    using assms(1) by (simp add: js_index_def m_queries_def len)
  also have "stage_view ?t' i = (stage_view t i)\<lparr>current := (current (stage_view t i))\<lparr>limit := None\<rparr>\<rparr>"
    using assms(1) by (simp add: stage_view_def st db)
  finally show ?thesis .
qed

lemma hasLimit_model:
  assumes "i < length (stages t)" and "isLast \<longrightarrow> Suc i = length (stages t)"
  shows "m_hasLimit t (getMLv2StageIndex i ''limit'' isLast) =
         (limit (current (stage_view t i)) \<noteq> None)"
  using assms(1) by (simp add: m_hasLimit_def stage_number [OF assms] js_index_def)

text \<open>The stages of a nested query: those of the query, and the new stage above.\<close>

lemma stages_m_nest: "stages (m_nest q) = stages q @ [empty_stage]"
  by (simp add: m_nest_def stages_def)

lemma stage_view_m_nest:
  "k < length (stages q) \<Longrightarrow> stage_view (m_nest q) k = stage_view q k"
  by (simp add: stage_view_def stages_m_nest nth_append) (simp add: m_nest_def)

lemma stage_view_m_nest_top: "stage_view (m_nest q) (length (stages q)) = m_nest q"
  by (simp add: stage_view_def stages_m_nest) (simp add: m_nest_def)

lemma length_m_queries: "length (m_queries q) = length (stages q)"
  by (simp add: m_queries_def)

lemma nth_m_queries: "k < length (stages q) \<Longrightarrow> m_queries q ! k = stage_view q k"
  by (simp add: m_queries_def)

text \<open>Removing the joins at the indexes below \<open>m\<close>, the highest index first.\<close>

lemma remove_joins_from_the_end:
  "revert_chain (map (\<lambda>k. getStep tq q i isLast openSteps (join_def model_ops) (Some k)) [0 ..< m]) q' =
     Some (q'\<lparr>current := (current q')\<lparr>stage_joins := drop m (stage_joins (current q'))\<rparr>\<rparr>)"
proof (induction m arbitrary: q')
  case 0
  show ?case by simp
next
  case (Suc m)
  let ?js = "stage_joins (current q')"
  have "drop m (take m ?js @ drop (Suc m) ?js) = drop (Suc m) ?js"
  proof (cases "m \<le> length ?js")
    case True
    then show ?thesis by simp
  next
    case False
    then show ?thesis by simp
  qed
  then have js: "drop m (stage_joins (current (m_removeJoin q' (Some m)))) = drop (Suc m) ?js"
    by (simp add: m_removeJoin_def)
  let ?J = "\<lambda>k. getStep tq q i isLast openSteps (join_def model_ops) (Some k)"
  have "revert_chain (map ?J [0 ..< Suc m]) q' =
        Option.bind (revert_chain [?J m] q') (revert_chain (map ?J [0 ..< m]))"
    by (simp add: revert_chain_append)
  also have "revert_chain [?J m] q' = Some (m_removeJoin q' (Some m))"
    by (simp add: revert_chain_Cons apply_revert_def join_revert_def)
  also have "Option.bind (Some (m_removeJoin q' (Some m))) (revert_chain (map ?J [0 ..< m])) =
      Some ((m_removeJoin q' (Some m))
        \<lparr>current := (current (m_removeJoin q' (Some m)))
           \<lparr>stage_joins := drop m (stage_joins (current (m_removeJoin q' (Some m))))\<rparr>\<rparr>)"
    by (simp add: Suc.IH)
  also have "\<dots> = Some (q'\<lparr>current := (current q')\<lparr>stage_joins := drop (Suc m) ?js\<rparr>\<rparr>)"
    by (simp only: js) (simp add: m_removeJoin_def)
  finally show ?case .
qed

lemma stage_update_same:
  "limit s = None \<Longrightarrow> s\<lparr>limit := None\<rparr> = s"
  "sorts s = [] \<Longrightarrow> s\<lparr>sorts := []\<rparr> = s"
  "filters s = [] \<Longrightarrow> s\<lparr>filters := []\<rparr> = s"
  "expressions s = [] \<Longrightarrow> s\<lparr>expressions := []\<rparr> = s"
  "stage_joins s = [] \<Longrightarrow> s\<lparr>stage_joins := []\<rparr> = s"
  by simp_all

lemma catalog_reverts [simp]:
  "def_revert (expression_def ops) = Some (\<lambda>query index tq si. Some (clearExpressions ops query))"
  "def_revert (filter_def ops) = Some (\<lambda>query index tq si. Some (clearFilters ops query))"
  "def_revert (summarize_def ops) = Some (summarize_revert ops)"
  "def_revert (sort_def ops) = Some (\<lambda>query index tq si. Some (clearSort ops query))"
  "def_revert (limit_def ops) = Some (limit_revert ops)"
  by (simp_all add: expression_def_def filter_def_def summarize_def_def sort_def_def limit_def_def)

text \<open>The steps after the joins, reverted from the limit back to the expressions.\<close>

lemma revert_limit_step:
  assumes "i < length (stages tq)" and "isLast \<longrightarrow> Suc i = length (stages tq)"
    and "active (getStep tq (stage_view tq i) i isLast openSteps (limit_def model_ops) None) \<longrightarrow>
         valid (getStep tq (stage_view tq i) i isLast openSteps (limit_def model_ops) None)"
  shows "revert_chain (filter visible [getStep tq (stage_view tq i) i isLast
           openSteps (limit_def model_ops) None]) (stage_view tq i) =
         Some ((stage_view tq i)\<lparr>current := (current (stage_view tq i))\<lparr>limit := None\<rparr>\<rparr>)"
proof (cases "visible (getStep tq (stage_view tq i) i isLast openSteps
           (limit_def model_ops) None)")
  case True
  then show ?thesis
    by (simp add: revert_chain_single limit_revert_model [OF assms(1,2)])
next
  case False
  with assms(3) have "\<not> m_hasLimit tq (getMLv2StageIndex i ''limit'' isLast)"
    by auto
  then have "limit (current (stage_view tq i)) = None"
    by (simp add: hasLimit_model [OF assms(1,2)])
  then have "(stage_view tq i)\<lparr>current := (current (stage_view tq i))\<lparr>limit := None\<rparr>\<rparr> = stage_view tq i"
    by (simp add: stage_update_same)
  with False show ?thesis
    by auto
qed

text \<open>The stage \<^verbatim>\<open>nest\<close> adds has a source query and no clause: its limit step is invalid.\<close>

lemma revert_limit_step_nested:
  "revert_chain (filter visible [getStep tq (m_nest q0) i isLast openSteps (limit_def model_ops) None])
     (m_nest q0) =
   Some ((m_nest q0)\<lparr>current := (current (m_nest q0))\<lparr>limit := None\<rparr>\<rparr>)"
proof -
  have "\<not> visible (getStep tq (m_nest q0) i isLast openSteps (limit_def model_ops) None)"
    by (simp add: limit_valid_def m_sourceQuery_def m_nest_def stages_def stage_has_clauses_def
        empty_stage_def)
  moreover have "(m_nest q0)\<lparr>current := (current (m_nest q0))\<lparr>limit := None\<rparr>\<rparr> = m_nest q0"
    by (simp add: m_nest_def empty_stage_def)
  ultimately show ?thesis
    by (simp del: getStep_fields)
qed

lemma revert_sort_step:
  assumes "active (getStep tq q i isLast openSteps (sort_def model_ops) None) \<longrightarrow>
           valid (getStep tq q i isLast openSteps (sort_def model_ops) None)"
    and "sorts (current q') = sorts (current q)"
  shows "revert_chain (filter visible [getStep tq q i isLast openSteps (sort_def model_ops) None]) q' =
         Some (q'\<lparr>current := (current q')\<lparr>sorts := []\<rparr>\<rparr>)"
proof (cases "visible (getStep tq q i isLast openSteps (sort_def model_ops) None)")
  case True
  then show ?thesis
    by (simp add: revert_chain_single m_clearSort_def)
next
  case False
  with assms have "sorts (current q') = []"
    by auto
  then have "q'\<lparr>current := (current q')\<lparr>sorts := []\<rparr>\<rparr> = q'"
    by (simp add: stage_update_same)
  with False show ?thesis
    by auto
qed

lemma revert_summarize_step:
  assumes "active (getStep tq q i isLast openSteps (summarize_def model_ops) None) \<longrightarrow>
           valid (getStep tq q i isLast openSteps (summarize_def model_ops) None)"
    and "aggregations (current q') = aggregations (current q)"
    and "breakouts (current q') = breakouts (current q)"
    and "aggregations (current q) \<noteq> [] \<or> breakouts (current q) \<noteq> [] \<longrightarrow>
         stage_fields (current q') = []"
  shows "revert_chain (filter visible [getStep tq q i isLast openSteps (summarize_def model_ops) None]) q' =
         Some (q'\<lparr>current := (current q')\<lparr>breakouts := [], aggregations := []\<rparr>\<rparr>)"
proof (cases "aggregations (current q) = [] \<and> breakouts (current q) = []")
  case True
  with assms have "q'\<lparr>current := (current q')\<lparr>breakouts := [], aggregations := []\<rparr>\<rparr> = q'"
    by simp
  with True assms show ?thesis
    by (simp add: revert_chain_single summarize_revert_def)
next
  case False
  with assms have "visible (getStep tq q i isLast openSteps (summarize_def model_ops) None)"
    by auto
  moreover from False assms(4) have "stage_fields (current q') = []"
    by auto
  then have "(current q')\<lparr>breakouts := [], aggregations := [], stage_fields := []\<rparr> =
      (current q')\<lparr>breakouts := [], aggregations := []\<rparr>"
    by (cases "current q'") simp
  ultimately show ?thesis
    using False assms(2,3)
    by (auto simp: revert_chain_single summarize_revert_def m_clearBreakouts_def
        m_clearAggregations_def)
qed

lemma revert_filter_step:
  assumes "active (getStep tq q i isLast openSteps (filter_def model_ops) None) \<longrightarrow>
           valid (getStep tq q i isLast openSteps (filter_def model_ops) None)"
    and "filters (current q') = filters (current q)"
  shows "revert_chain (filter visible [getStep tq q i isLast openSteps (filter_def model_ops) None]) q' =
         Some (q'\<lparr>current := (current q')\<lparr>filters := []\<rparr>\<rparr>)"
proof (cases "visible (getStep tq q i isLast openSteps (filter_def model_ops) None)")
  case True
  then show ?thesis
    by (simp add: revert_chain_single m_clearFilters_def)
next
  case False
  with assms have "filters (current q') = []"
    by auto
  then have "q'\<lparr>current := (current q')\<lparr>filters := []\<rparr>\<rparr> = q'"
    by (simp add: stage_update_same)
  with False show ?thesis
    by auto
qed

lemma revert_expression_step:
  assumes "active (getStep tq q i isLast openSteps (expression_def model_ops) None) \<longrightarrow>
           valid (getStep tq q i isLast openSteps (expression_def model_ops) None)"
    and "expressions (current q') = expressions (current q)"
  shows "revert_chain (filter visible [getStep tq q i isLast openSteps (expression_def model_ops) None]) q' =
         Some (q'\<lparr>current := (current q')\<lparr>expressions := []\<rparr>\<rparr>)"
proof (cases "visible (getStep tq q i isLast openSteps (expression_def model_ops) None)")
  case True
  then show ?thesis
    by (simp add: revert_chain_single m_clearExpressions_def)
next
  case False
  with assms have "expressions (current q') = []"
    by auto
  then have "q'\<lparr>current := (current q')\<lparr>expressions := []\<rparr>\<rparr> = q'"
    by (simp add: stage_update_same)
  with False show ?thesis
    by auto
qed

lemma revert_join_steps:
  assumes av: "\<forall>k < Suc (length (stage_joins (current q))).
      active (getStep tq q i isLast openSteps (join_def model_ops) (Some k)) \<longrightarrow>
      valid (getStep tq q i isLast openSteps (join_def model_ops) (Some k))"
    and js: "stage_joins (current q') = stage_joins (current q)"
  shows "revert_chain
           (filter visible
              (map (\<lambda>k. getStep tq q i isLast openSteps (join_def model_ops) (Some k))
                 [0 ..< Suc (length (stage_joins (current q)))])) q' =
         Some (q'\<lparr>current := (current q')\<lparr>stage_joins := []\<rparr>\<rparr>)"
proof -
  let ?n = "length (stage_joins (current q))"
  let ?J = "\<lambda>k. getStep tq q i isLast openSteps (join_def model_ops) (Some k)"
  let ?V = "m_hasData q \<and> (case sq_db q of None \<Rightarrow> False | Some db \<Rightarrow> ''join'' \<in> set db)"
  have vis: "visible (?J k) =
      (?V \<and> (k < ?n \<or> truthy (openSteps (getId i (join_def model_ops) (Some k)))))"
    for k
    by (simp add: join_valid_def join_active_def cong: option.case_cong)
  have val: "valid (?J k) = ?V" for k
    by (simp add: join_valid_def cong: option.case_cong)
  show ?thesis
  proof (cases ?V)
    case False
    then have "\<not> visible (?J k)" for k
      by (simp only: vis simp_thms)
    then have none: "filter visible (map ?J [0 ..< Suc ?n]) = []"
      by (simp only: filter_empty_conv) (simp del: upt_Suc getStep_fields)
    have "?n = 0"
    proof (rule ccontr)
      assume "?n \<noteq> 0"
      then have "active (?J 0)" by (simp add: join_active_def)
      with av have "valid (?J 0)" by simp
      with False show False by (simp only: val)
    qed
    with js have "q'\<lparr>current := (current q')\<lparr>stage_joins := []\<rparr>\<rparr> = q'"
      by (simp add: stage_update_same)
    then show ?thesis
      by (simp only: none revert_chain_Nil)
  next
    case True
    have "k < ?n \<Longrightarrow> visible (?J k)" for k
      using True by (simp only: vis simp_thms)
    then have shown: "filter visible (map ?J [0 ..< ?n]) = map ?J [0 ..< ?n]"
      by (simp only: filter_id_conv) (simp del: getStep_fields)
    show ?thesis
    proof (cases "truthy (openSteps (getId i (join_def model_ops) (Some ?n)))")
      case open_n: True
      have "visible (?J ?n)"
        using True open_n by (simp only: vis simp_thms)
      then have "filter visible (map ?J [0 ..< Suc ?n]) = map ?J [0 ..< Suc ?n]"
        using shown by (simp del: getStep_fields)
      then show ?thesis
        using js by (simp only: remove_joins_from_the_end) simp
    next
      case closed_n: False
      have "\<not> visible (?J ?n)"
        using closed_n by (simp only: vis simp_thms) simp
      then have "filter visible (map ?J [0 ..< Suc ?n]) = map ?J [0 ..< ?n]"
        using shown by (simp del: getStep_fields)
      then show ?thesis
        using js by (simp only: remove_joins_from_the_end) simp
    qed
  qed
qed

lemma filter_visible_rawSteps:
  "filter visible (rawSteps ops tq q i isLast openSteps) =
     filter visible [getStep tq q i isLast openSteps (data_def ops) None] @
     filter visible (map (\<lambda>k. getStep tq q i isLast openSteps (join_def ops) (Some k))
       [0 ..< Suc (length (joins ops q))]) @
     filter visible [getStep tq q i isLast openSteps (expression_def ops) None] @
     filter visible [getStep tq q i isLast openSteps (filter_def ops) None] @
     filter visible [getStep tq q i isLast openSteps (summarize_def ops) None] @
     filter visible [getStep tq q i isLast openSteps (sort_def ops) None] @
     filter visible [getStep tq q i isLast openSteps (limit_def ops) None]"
proof -
  have "rawSteps ops tq q i isLast openSteps =
     [getStep tq q i isLast openSteps (data_def ops) None] @
     map (\<lambda>k. getStep tq q i isLast openSteps (join_def ops) (Some k))
       [0 ..< Suc (length (joins ops q))] @
     [getStep tq q i isLast openSteps (expression_def ops) None] @
     [getStep tq q i isLast openSteps (filter_def ops) None] @
     [getStep tq q i isLast openSteps (summarize_def ops) None] @
     [getStep tq q i isLast openSteps (sort_def ops) None] @
     [getStep tq q i isLast openSteps (limit_def ops) None]"
    by (simp only: rawSteps_eq append.simps)
  then show ?thesis
    by (simp only: filter_append)
qed

lemma revert_data_step:
  "revert_chain (filter visible [getStep tq q i isLast openSteps (data_def ops) None]) q' = Some q'"
  by (simp add: revert_chain_single)

text \<open>
  One stage, in the model: once the limit step has done its part, the other steps
  revert the stage to its data-only query.
\<close>

lemma revert_stage:
  assumes lim: "revert_chain
        (filter visible [getStep tq q i isLast openSteps (limit_def model_ops) None]) q =
      Some (q\<lparr>current := (current q)\<lparr>limit := None\<rparr>\<rparr>)"
    and av: "\<forall>s \<in> set (rawSteps model_ops tq q i isLast openSteps).
               step_type s \<noteq> ''data'' \<longrightarrow> active s \<longrightarrow> valid s"
    and fl: "aggregations (current q) \<noteq> [] \<or> breakouts (current q) \<noteq> [] \<longrightarrow>
             stage_fields (current q) = []"
  shows "revert_chain (fst (getStageSteps model_ops tq q i isLast openSteps)) q =
         Some (data_only q)"
proof -
  let ?S = "\<lambda>d. getStep tq q i isLast openSteps (d model_ops) None"
  let ?J = "\<lambda>k. getStep tq q i isLast openSteps (join_def model_ops) (Some k)"
  let ?n = "length (stage_joins (current q))"
  have mem: "?S sort_def \<in> set (rawSteps model_ops tq q i isLast openSteps)"
    "?S summarize_def \<in> set (rawSteps model_ops tq q i isLast openSteps)"
    "?S filter_def \<in> set (rawSteps model_ops tq q i isLast openSteps)"
    "?S expression_def \<in> set (rawSteps model_ops tq q i isLast openSteps)"
    by (simp_all only: rawSteps_eq set_append list.set) simp_all
  have memJ: "k < Suc ?n \<Longrightarrow> ?J k \<in> set (rawSteps model_ops tq q i isLast openSteps)" for k
    by (auto simp: rawSteps_eq simp del: upt_Suc getStep_fields)
  have aO: "active (?S sort_def) \<longrightarrow> valid (?S sort_def)"
    using av [rule_format, OF mem(1)] by simp
  have aS: "active (?S summarize_def) \<longrightarrow> valid (?S summarize_def)"
    using av [rule_format, OF mem(2)] by simp
  have aF: "active (?S filter_def) \<longrightarrow> valid (?S filter_def)"
    using av [rule_format, OF mem(3)] by simp
  have aE: "active (?S expression_def) \<longrightarrow> valid (?S expression_def)"
    using av [rule_format, OF mem(4)] by simp
  have aJ: "\<forall>k < Suc ?n. active (?J k) \<longrightarrow> valid (?J k)"
  proof (intro allI impI)
    fix k assume "k < Suc ?n" and "active (?J k)"
    then show "valid (?J k)"
      using av [rule_format, OF memJ [of k]] by simp
  qed
  let ?q1 = "q\<lparr>current := (current q)\<lparr>limit := None\<rparr>\<rparr>"
  let ?q2 = "?q1\<lparr>current := (current ?q1)\<lparr>sorts := []\<rparr>\<rparr>"
  let ?q3 = "?q2\<lparr>current := (current ?q2)\<lparr>breakouts := [], aggregations := []\<rparr>\<rparr>"
  let ?q4 = "?q3\<lparr>current := (current ?q3)\<lparr>filters := []\<rparr>\<rparr>"
  let ?q5 = "?q4\<lparr>current := (current ?q4)\<lparr>expressions := []\<rparr>\<rparr>"
  let ?q6 = "?q5\<lparr>current := (current ?q5)\<lparr>stage_joins := []\<rparr>\<rparr>"
  have 1: "revert_chain (filter visible [?S limit_def]) q = Some ?q1"
    by (rule lim)
  have 2: "revert_chain (filter visible [?S sort_def]) ?q1 = Some ?q2"
    using aO by (rule revert_sort_step) simp
  have 3: "revert_chain (filter visible [?S summarize_def]) ?q2 = Some ?q3"
    using aS
  proof (rule revert_summarize_step)
    show "aggregations (current q) \<noteq> [] \<or> breakouts (current q) \<noteq> [] \<longrightarrow>
          stage_fields (current ?q2) = []"
      using fl by simp
  qed simp_all
  have 4: "revert_chain (filter visible [?S filter_def]) ?q3 = Some ?q4"
    using aF by (rule revert_filter_step) simp
  have 5: "revert_chain (filter visible [?S expression_def]) ?q4 = Some ?q5"
    using aE by (rule revert_expression_step) simp
  have 6: "revert_chain (filter visible (map ?J [0 ..< Suc ?n])) ?q5 = Some ?q6"
    using aJ by (rule revert_join_steps) simp
  have 7: "revert_chain (filter visible [?S data_def]) ?q6 = Some ?q6"
    by (rule revert_data_step)
  have "revert_chain (filter visible (rawSteps model_ops tq q i isLast openSteps)) q = Some ?q6"
    by (simp only: filter_visible_rawSteps revert_chain_append 1 2 3 4 5 6 7 bind.simps
        model_fields)
  moreover have "?q6 = data_only q"
    by (simp add: data_only_def)
  ultimately show ?thesis
    by (simp only: revert_chain_returned)
qed

text \<open>The stages of a question whose query has nothing to strip: those of the query that
  is also the top-level query, and the stage \<^verbatim>\<open>nest\<close> may add above them.\<close>

lemma question_stage_cases:
  assumes cn: "cleanNesting model_ops (question_query qn) = question_query qn"
    and k: "k < length (question_stages model_ops qn)"
  shows "(k < length (stages (question_query qn)) \<and>
          question_stages model_ops qn ! k = stage_view (question_query qn) k \<and>
          (Suc k = length (question_stages model_ops qn) \<longrightarrow>
             Suc k = length (stages (question_query qn)))) \<or>
         question_stages model_ops qn ! k = m_nest (question_query qn)"
proof -
  let ?root = "question_query qn"
  have cn': "m_cleanNesting ?root = ?root"
    using cn by (simp add: model_ops_def)
  have nest: "nest model_ops = m_nest" and cl: "cleanNesting model_ops = m_cleanNesting"
    by (simp_all add: model_ops_def)
  show ?thesis
  proof (cases "question_stages model_ops qn = m_queries ?root")
    case True
    with k show ?thesis
      by (simp add: length_m_queries nth_m_queries)
  next
    case False
    then have st: "question_stages model_ops qn = m_queries (m_nest ?root)"
      by (auto simp: question_stages_def Let_def nest cl cn' split: if_splits)
    have len: "length (question_stages model_ops qn) = Suc (length (stages ?root))"
      by (simp add: st length_m_queries stages_m_nest)
    show ?thesis
    proof (cases "k < length (stages ?root)")
      case True
      then have "question_stages model_ops qn ! k = stage_view ?root k"
        by (simp add: st nth_m_queries stages_m_nest stage_view_m_nest)
      with True len show ?thesis by simp
    next
      case False
      with k len have "k = length (stages ?root)" by simp
      then have "question_stages model_ops qn ! k = m_nest ?root"
        by (simp add: st nth_m_queries stages_m_nest stage_view_m_nest_top)
      then show ?thesis by simp
    qed
  qed
qed

text \<open>
  Claim C4, as the code has it, on the model of the query. Take a question whose query
  \<^verbatim>\<open>cleanNesting\<close> leaves as it is, and a stage of its derivation in which every active
  step instance other than the data step is valid (so that every clause of the stage
  shows as a visible step) and which has no field selection next to aggregations or
  breakouts. Reverting the steps the derivation returns for that stage, the last one
  first and each result the base of the next, gives the data-only query of the stage.
  The steps \<open>getQuestionSteps\<close> returns are those of its stages, one stage after the
  other.
\<close>

theorem reverting_visible_steps_gives_data_only:
  assumes cn: "cleanNesting model_ops (question_query qn) = question_query qn"
    and k: "k < length (question_stages model_ops qn)"
    and av: "\<forall>s \<in> set (question_rawSteps model_ops qn openSteps k).
               step_type s \<noteq> ''data'' \<longrightarrow> active s \<longrightarrow> valid s"
    and fl: "aggregations (current (question_stages model_ops qn ! k)) \<noteq> [] \<or>
             breakouts (current (question_stages model_ops qn ! k)) \<noteq> [] \<longrightarrow>
             stage_fields (current (question_stages model_ops qn ! k)) = []"
  shows "revert_chain (question_stageSteps model_ops qn openSteps k)
           (question_stages model_ops qn ! k) =
         Some (data_only (question_stages model_ops qn ! k)) \<and>
         (isStructured qn \<longrightarrow>
          map unannotated (getQuestionSteps model_ops qn openSteps) =
            concat (map (\<lambda>j. map unannotated (question_stageSteps model_ops qn openSteps j))
                      [0 ..< length (question_stages model_ops qn)]))"
proof
  let ?root = "question_query qn"
  let ?q = "question_stages model_ops qn ! k"
  let ?last = "Suc k = length (question_stages model_ops qn)"
  have tq: "getMLv2Query model_ops ?root = ?root"
    by (simp add: model_ops_def)
  have av': "\<forall>s \<in> set (rawSteps model_ops ?root ?q k ?last openSteps).
               step_type s \<noteq> ''data'' \<longrightarrow> active s \<longrightarrow> valid s"
    using av by (simp only: question_rawSteps_def tq)
  have lim: "revert_chain
        (filter visible [getStep ?root ?q k ?last openSteps (limit_def model_ops) None]) ?q =
      Some (?q\<lparr>current := (current ?q)\<lparr>limit := None\<rparr>\<rparr>)"
    using question_stage_cases [OF cn k]
  proof
    assume a: "k < length (stages ?root) \<and> ?q = stage_view ?root k \<and>
          (?last \<longrightarrow> Suc k = length (stages ?root))"
    have L: "getStep ?root (stage_view ?root k) k ?last openSteps (limit_def model_ops) None \<in>
        set (rawSteps model_ops ?root (stage_view ?root k) k ?last openSteps)"
      by (simp only: rawSteps_eq set_append list.set) simp
    have "active (getStep ?root (stage_view ?root k) k ?last openSteps (limit_def model_ops) None) \<longrightarrow>
          valid (getStep ?root (stage_view ?root k) k ?last openSteps (limit_def model_ops) None)"
      using av' [rule_format, OF L [folded a [THEN conjunct2, THEN conjunct1]]]
      by (simp add: a)
    then have "revert_chain
        (filter visible [getStep ?root (stage_view ?root k) k ?last openSteps (limit_def model_ops) None])
        (stage_view ?root k) =
      Some ((stage_view ?root k)\<lparr>current := (current (stage_view ?root k))\<lparr>limit := None\<rparr>\<rparr>)"
      using a by (intro revert_limit_step) simp_all
    then show ?thesis
      by (simp only: a)
  next
    assume b: "?q = m_nest ?root"
    show ?thesis
      unfolding b by (rule revert_limit_step_nested)
  qed
  have "revert_chain (fst (getStageSteps model_ops ?root ?q k ?last openSteps)) ?q =
        Some (data_only ?q)"
    using lim av' fl by (rule revert_stage)
  then show "revert_chain (question_stageSteps model_ops qn openSteps k) ?q = Some (data_only ?q)"
    by (simp only: question_stageSteps_def tq)
next
  show "isStructured qn \<longrightarrow>
          map unannotated (getQuestionSteps model_ops qn openSteps) =
            concat (map (\<lambda>j. map unannotated (question_stageSteps model_ops qn openSteps j))
                      [0 ..< length (question_stages model_ops qn)])"
    by (simp add: getQuestionSteps_unannotated question_stageSteps_def question_rawSteps_def
        getStageSteps_unannotated)
qed

theorem reverting_visible_steps_gives_data_only_witness:
  "cleanNesting model_ops (question_query (as_question q_nested)) =
     question_query (as_question q_nested) \<and>
   question_stages model_ops (as_question q_nested) ! 1 = q_nested \<and>
   list_all (\<lambda>s. step_type s = ''data'' \<or> \<not> active s \<or> valid s)
     (question_rawSteps model_ops (as_question q_nested) [''1:join'' \<mapsto> True] 1) \<and>
   map step_id (question_stageSteps model_ops (as_question q_nested) [''1:join'' \<mapsto> True] 1) =
     [''1:join'', ''1:filter'', ''1:sort'', ''1:limit''] \<and>
   revert_chain (question_stageSteps model_ops (as_question q_nested) [''1:join'' \<mapsto> True] 1)
     q_nested =
     Some (on_db [plain_stage\<lparr>aggregations := [Clause 1 True], breakouts := [Clause 2 True],
                              sorts := [Clause 2 True]\<rparr>] empty_stage) \<and>
   length (question_stages model_ops (as_question q_grouped)) = 2 \<and>
   question_stages model_ops (as_question q_grouped) ! 0 = q_grouped \<and>
   map step_id (question_stageSteps model_ops (as_question q_grouped) Map.empty 0) =
     [''0:data'', ''0:summarize'', ''0:sort''] \<and>
   revert_chain (question_stageSteps model_ops (as_question q_grouped) Map.empty 0) q_grouped =
     Some q_plain"
proof -
  let ?O = "[''1:join'' \<mapsto> True]"
  have cn: "cleanNesting model_ops (question_query (as_question q_nested)) =
     question_query (as_question q_nested)"
    by code_simp
  have k: "1 < length (question_stages model_ops (as_question q_nested))"
    by code_simp
  have st: "question_stages model_ops (as_question q_nested) ! 1 = q_nested"
    by code_simp
  have la: "list_all (\<lambda>s. step_type s = ''data'' \<or> \<not> active s \<or> valid s)
     (question_rawSteps model_ops (as_question q_nested) ?O 1)"
    by code_simp
  then have av: "\<forall>s \<in> set (question_rawSteps model_ops (as_question q_nested) ?O 1).
      step_type s \<noteq> ''data'' \<longrightarrow> active s \<longrightarrow> valid s"
    by (auto simp only: list_all_iff)
  have fl: "aggregations (current (question_stages model_ops (as_question q_nested) ! 1)) \<noteq> [] \<or>
      breakouts (current (question_stages model_ops (as_question q_nested) ! 1)) \<noteq> [] \<longrightarrow>
      stage_fields (current (question_stages model_ops (as_question q_nested) ! 1)) = []"
    by code_simp
  have ids: "map step_id (question_stageSteps model_ops (as_question q_nested) ?O 1) =
     [''1:join'', ''1:filter'', ''1:sort'', ''1:limit'']"
    by code_simp
  have d: "data_only q_nested =
     on_db [plain_stage\<lparr>aggregations := [Clause 1 True], breakouts := [Clause 2 True],
                        sorts := [Clause 2 True]\<rparr>] empty_stage"
    by code_simp
  have r1: "revert_chain (question_stageSteps model_ops (as_question q_nested) ?O 1) q_nested =
      Some (on_db [plain_stage\<lparr>aggregations := [Clause 1 True], breakouts := [Clause 2 True],
                              sorts := [Clause 2 True]\<rparr>] empty_stage)"
    using reverting_visible_steps_gives_data_only [OF cn k av fl, THEN conjunct1]
    by (simp only: st d)
  have cn2: "cleanNesting model_ops (question_query (as_question q_grouped)) =
     question_query (as_question q_grouped)"
    by code_simp
  have len2: "length (question_stages model_ops (as_question q_grouped)) = 2"
    by code_simp
  then have k2: "0 < length (question_stages model_ops (as_question q_grouped))"
    by simp
  have st2: "question_stages model_ops (as_question q_grouped) ! 0 = q_grouped"
    by code_simp
  have "list_all (\<lambda>s. step_type s = ''data'' \<or> \<not> active s \<or> valid s)
     (question_rawSteps model_ops (as_question q_grouped) Map.empty 0)"
    by code_simp
  then have av2: "\<forall>s \<in> set (question_rawSteps model_ops (as_question q_grouped) Map.empty 0).
      step_type s \<noteq> ''data'' \<longrightarrow> active s \<longrightarrow> valid s"
    by (auto simp only: list_all_iff)
  have fl2: "aggregations (current (question_stages model_ops (as_question q_grouped) ! 0)) \<noteq> [] \<or>
      breakouts (current (question_stages model_ops (as_question q_grouped) ! 0)) \<noteq> [] \<longrightarrow>
      stage_fields (current (question_stages model_ops (as_question q_grouped) ! 0)) = []"
    by code_simp
  have ids2: "map step_id (question_stageSteps model_ops (as_question q_grouped) Map.empty 0) =
     [''0:data'', ''0:summarize'', ''0:sort'']"
    by code_simp
  have d2: "data_only q_grouped = q_plain"
    by code_simp
  have r2: "revert_chain (question_stageSteps model_ops (as_question q_grouped) Map.empty 0) q_grouped =
      Some q_plain"
    using reverting_visible_steps_gives_data_only [OF cn2 k2 av2 fl2, THEN conjunct1]
    by (simp only: st2 d2)
  from cn st la ids r1 len2 st2 ids2 r2 show ?thesis
    by (intro conjI)
qed

text \<open>
  Claim C4 as it is worded fails, in three ways. A count with a limit and no breakout
  shows the data and summarize steps only, since the limit step is invalid there:
  reverting the visible steps leaves the limit. A stage with a limit under an empty
  stage that \<^verbatim>\<open>cleanNesting\<close> strips is derived as the last stage, while the top-level
  query still has the empty stage as its last: the limit step reads no limit there, is
  hidden, and the limit stays. And reverting the summarize step of a stage with a
  field selection wipes the selection, which belongs to the data step.
\<close>

theorem reverting_visible_steps_keeps_clauses:
  "question_stages model_ops (as_question q_count_limit) = [q_count_limit] \<and>
   map step_id (question_stageSteps model_ops (as_question q_count_limit) Map.empty 0) =
     [''0:data'', ''0:summarize''] \<and>
   revert_chain (question_stageSteps model_ops (as_question q_count_limit) Map.empty 0)
     q_count_limit = Some (on_db [] (plain_stage\<lparr>limit := Some 5\<rparr>)) \<and>
   data_only q_count_limit = q_plain \<and>
   on_db [] (plain_stage\<lparr>limit := Some 5\<rparr>) \<noteq> q_plain \<and>
   question_stages model_ops (as_question q_stripped) = [on_db [] (plain_stage\<lparr>limit := Some 4\<rparr>)] \<and>
   list_all (\<lambda>s. step_type s = ''data'' \<or> \<not> active s \<or> valid s)
     (question_rawSteps model_ops (as_question q_stripped) Map.empty 0) \<and>
   map step_id (question_stageSteps model_ops (as_question q_stripped) Map.empty 0) = [''0:data''] \<and>
   revert_chain (question_stageSteps model_ops (as_question q_stripped) Map.empty 0)
     (on_db [] (plain_stage\<lparr>limit := Some 4\<rparr>)) = Some (on_db [] (plain_stage\<lparr>limit := Some 4\<rparr>)) \<and>
   data_only (on_db [] (plain_stage\<lparr>limit := Some 4\<rparr>)) = q_plain \<and>
   on_db [] (plain_stage\<lparr>limit := Some 4\<rparr>) \<noteq> q_plain \<and>
   question_stages model_ops (as_question q_fields_count) ! 0 = q_fields_count \<and>
   list_all (\<lambda>s. step_type s = ''data'' \<or> \<not> active s \<or> valid s)
     (question_rawSteps model_ops (as_question q_fields_count) Map.empty 0) \<and>
   map step_id (question_stageSteps model_ops (as_question q_fields_count) Map.empty 0) =
     [''0:data'', ''0:summarize''] \<and>
   revert_chain (question_stageSteps model_ops (as_question q_fields_count) Map.empty 0)
     q_fields_count = Some q_plain \<and>
   data_only q_fields_count = on_db [] (plain_stage\<lparr>stage_fields := [7]\<rparr>) \<and>
   q_plain \<noteq> on_db [] (plain_stage\<lparr>stage_fields := [7]\<rparr>)"
  by code_simp

end
